theory Spec2Isabelle
  imports Main
begin

section \<open>Strings of UTF-16 code units\<close>

text \<open>
  A JavaScript string is a sequence of UTF-16 code units. A code unit is modelled as a
  natural number and a string as the list of its code units, so that \<open>length\<close> is the
  \<^verbatim>\<open>.length\<close> of the source and the non-ASCII characters of the source (the bullet
  U+2022, the umlauts) are single elements. \<open>asc\<close> reads an ASCII literal.
\<close>

type_synonym cu = nat
type_synonym jsstring = "cu list"

definition asc :: "string \<Rightarrow> jsstring" where
  "asc s = map of_char s"

text \<open>The characters matched by \<^verbatim>\<open>\s\<close> and removed by \<^verbatim>\<open>trim()\<close>: WhiteSpace and
  LineTerminator of ECMAScript.\<close>

definition isSpace :: "cu \<Rightarrow> bool" where
  "isSpace c \<longleftrightarrow> c = 9 \<or> c = 10 \<or> c = 11 \<or> c = 12 \<or> c = 13 \<or> c = 32 \<or> c = 160
     \<or> c = 5760 \<or> (8192 \<le> c \<and> c \<le> 8202) \<or> c = 8232 \<or> c = 8233 \<or> c = 8239
     \<or> c = 8287 \<or> c = 12288 \<or> c = 65279"

definition isLineTerminator :: "cu \<Rightarrow> bool" where
  "isLineTerminator c \<longleftrightarrow> c = 10 \<or> c = 13 \<or> c = 8232 \<or> c = 8233"

definition isDigit :: "cu \<Rightarrow> bool" where
  "isDigit c \<longleftrightarrow> 48 \<le> c \<and> c \<le> 57"

definition isLower :: "cu \<Rightarrow> bool" where
  "isLower c \<longleftrightarrow> 97 \<le> c \<and> c \<le> 122"

definition isUpper :: "cu \<Rightarrow> bool" where
  "isUpper c \<longleftrightarrow> 65 \<le> c \<and> c \<le> 90"

definition isLetter :: "cu \<Rightarrow> bool" where
  "isLetter c \<longleftrightarrow> isLower c \<or> isUpper c"

definition anyChar :: "cu \<Rightarrow> bool" where
  "anyChar c \<longleftrightarrow> True"

definition oneOf :: "cu list \<Rightarrow> cu \<Rightarrow> bool" where
  "oneOf cs c \<longleftrightarrow> c \<in> set cs"

definition noneOf :: "cu list \<Rightarrow> cu \<Rightarrow> bool" where
  "noneOf cs c \<longleftrightarrow> c \<notin> set cs"

text \<open>
  Canonicalisation of a code unit under the \<^verbatim>\<open>i\<close> flag (without \<^verbatim>\<open>u\<close>). Every literal
  of the program's case-insensitive patterns is ASCII, and ECMAScript never folds a
  non-ASCII code unit onto an ASCII one, so only the ASCII letters are folded.
\<close>

definition canon :: "cu \<Rightarrow> cu" where
  "canon c = (if isLower c then c - 32 else c)"

text \<open>\<^verbatim>\<open>toUpperCase\<close>, as far as the program uses it: its arguments are capture groups
  that only hold ASCII letters.\<close>

definition toUpperCase :: "jsstring \<Rightarrow> jsstring" where
  "toUpperCase s = map canon s"

definition trim :: "jsstring \<Rightarrow> jsstring" where
  "trim s = rev (dropWhile isSpace (rev (dropWhile isSpace s)))"

text \<open>\<^verbatim>\<open>s.split(sep)\<close> for a one-character separator: the result is never empty.\<close>

fun split :: "cu \<Rightarrow> jsstring \<Rightarrow> jsstring list" where
  "split sep [] = [[]]"
| "split sep (x # xs) =
     (if x = sep then [] # split sep xs
      else (case split sep xs of [] \<Rightarrow> [[x]] | l # ls \<Rightarrow> (x # l) # ls))"

text \<open>\<^verbatim>\<open>parts.join(sep)\<close>\<close>

fun join :: "cu \<Rightarrow> jsstring list \<Rightarrow> jsstring" where
  "join sep [] = []"
| "join sep [l] = l"
| "join sep (l # l' # ls) = l @ sep # join sep (l' # ls)"

text \<open>\<^verbatim>\<open>s.substring(i, j)\<close> for \<open>i \<le> j\<close>.\<close>

definition substring :: "jsstring \<Rightarrow> nat \<Rightarrow> nat \<Rightarrow> jsstring" where
  "substring s i j = take (j - i) (drop i s)"

section \<open>Regular expressions with the backtracking order of ECMAScript\<close>

text \<open>
  The patterns of the program use literals, character classes, quantified character
  classes (greedy and lazy), sequence, alternation, an optional non-capturing group,
  capture groups, positive lookahead and the assertions \<^verbatim>\<open>^\<close> and \<^verbatim>\<open>$\<close>.
  \<open>LitI\<close> is a literal under the \<^verbatim>\<open>i\<close> flag, \<open>BolM\<close> is \<^verbatim>\<open>^\<close> under the \<^verbatim>\<open>m\<close> flag,
  \<open>Eoi\<close> is \<^verbatim>\<open>$\<close> without it. \<open>Rep p lo hi greedy\<close> is the class \<open>p\<close> repeated
  \<open>lo\<close> to \<open>hi\<close> times (\<open>None\<close>: unbounded), greedy or lazy.
\<close>

datatype regex =
    Lit jsstring
  | LitI jsstring
  | Cls "cu \<Rightarrow> bool"
  | Rep "cu \<Rightarrow> bool" nat "nat option" bool
  | Seq regex regex
  | Alt regex regex
  | Opt regex
  | Group nat regex
  | Look regex
  | Bol
  | BolM
  | Eoi

abbreviation Star :: "(cu \<Rightarrow> bool) \<Rightarrow> regex" where
  "Star p \<equiv> Rep p 0 None True"

abbreviation Plus :: "(cu \<Rightarrow> bool) \<Rightarrow> regex" where
  "Plus p \<equiv> Rep p 1 None True"

abbreviation StarLazy :: "(cu \<Rightarrow> bool) \<Rightarrow> regex" where
  "StarLazy p \<equiv> Rep p 0 None False"

abbreviation PlusLazy :: "(cu \<Rightarrow> bool) \<Rightarrow> regex" where
  "PlusLazy p \<equiv> Rep p 1 None False"

fun seqs :: "regex list \<Rightarrow> regex" where
  "seqs [] = Lit []"
| "seqs [r] = r"
| "seqs (r # r' # rs) = Seq r (seqs (r' # rs))"

fun alts :: "regex list \<Rightarrow> regex" where
  "alts [] = Lit []"
| "alts [r] = r"
| "alts (r # r' # rs) = Alt r (alts (r' # rs))"

text \<open>
  A capture is the pair of the positions where the group started and ended. A matcher
  state is the current position, the code unit before it (\<open>None\<close> at the start of the
  input), the input from the current position on, and the captures so far. As in the
  ECMAScript specification, a matcher takes a continuation: it returns the first
  success of the continuation over its own ways to match, in backtracking order.
\<close>

type_synonym captures = "nat \<Rightarrow> (nat \<times> nat) option"
type_synonym mstate = "nat \<times> cu option \<times> jsstring \<times> captures"
type_synonym cont = "nat \<Rightarrow> cu option \<Rightarrow> jsstring \<Rightarrow> captures \<Rightarrow> mstate option"

fun matchLit :: "bool \<Rightarrow> jsstring \<Rightarrow> nat \<Rightarrow> cu option \<Rightarrow> jsstring
    \<Rightarrow> (nat \<times> cu option \<times> jsstring) option" where
  "matchLit ci [] pos prev rest = Some (pos, prev, rest)"
| "matchLit ci (a # w) pos prev [] = None"
| "matchLit ci (a # w) pos prev (x # xs) =
     (if (if ci then canon a = canon x else a = x)
      then matchLit ci w (Suc pos) (Some x) xs else None)"

fun dec :: "nat option \<Rightarrow> nat option" where
  "dec None = None"
| "dec (Some h) = Some (h - 1)"

fun rep :: "(cu \<Rightarrow> bool) \<Rightarrow> nat \<Rightarrow> nat option \<Rightarrow> bool \<Rightarrow> nat \<Rightarrow> cu option \<Rightarrow> jsstring
    \<Rightarrow> (nat \<Rightarrow> cu option \<Rightarrow> jsstring \<Rightarrow> mstate option) \<Rightarrow> mstate option" where
  "rep p lo hi greedy pos prev [] k = (if lo = 0 then k pos prev [] else None)"
| "rep p lo hi greedy pos prev (x # xs) k =
     (if 0 < lo then
        (if p x \<and> hi \<noteq> Some 0
         then rep p (lo - 1) (dec hi) greedy (Suc pos) (Some x) xs k else None)
      else if greedy then
        (case (if p x \<and> hi \<noteq> Some 0
               then rep p 0 (dec hi) greedy (Suc pos) (Some x) xs k else None) of
           Some st \<Rightarrow> Some st
         | None \<Rightarrow> k pos prev (x # xs))
      else
        (case k pos prev (x # xs) of
           Some st \<Rightarrow> Some st
         | None \<Rightarrow>
             if p x \<and> hi \<noteq> Some 0
             then rep p 0 (dec hi) greedy (Suc pos) (Some x) xs k else None))"

fun ms :: "regex \<Rightarrow> nat \<Rightarrow> cu option \<Rightarrow> jsstring \<Rightarrow> captures \<Rightarrow> cont \<Rightarrow> mstate option" where
  "ms (Lit w) pos prev rest c k =
     (case matchLit False w pos prev rest of
        None \<Rightarrow> None
      | Some (pos', prev', rest') \<Rightarrow> k pos' prev' rest' c)"
| "ms (LitI w) pos prev rest c k =
     (case matchLit True w pos prev rest of
        None \<Rightarrow> None
      | Some (pos', prev', rest') \<Rightarrow> k pos' prev' rest' c)"
| "ms (Cls p) pos prev rest c k =
     (case rest of [] \<Rightarrow> None | x # xs \<Rightarrow> if p x then k (Suc pos) (Some x) xs c else None)"
| "ms (Rep p lo hi greedy) pos prev rest c k =
     rep p lo hi greedy pos prev rest (\<lambda>pos' prev' rest'. k pos' prev' rest' c)"
| "ms (Seq a b) pos prev rest c k =
     ms a pos prev rest c (\<lambda>pos' prev' rest' c'. ms b pos' prev' rest' c' k)"
| "ms (Alt a b) pos prev rest c k =
     (case ms a pos prev rest c k of Some st \<Rightarrow> Some st | None \<Rightarrow> ms b pos prev rest c k)"
| "ms (Opt a) pos prev rest c k =
     (case ms a pos prev rest c k of Some st \<Rightarrow> Some st | None \<Rightarrow> k pos prev rest c)"
| "ms (Group n a) pos prev rest c k =
     ms a pos prev rest c (\<lambda>pos' prev' rest' c'. k pos' prev' rest' (c'(n \<mapsto> (pos, pos'))))"
| "ms (Look a) pos prev rest c k =
     (case ms a pos prev rest c (\<lambda>pos' prev' rest' c'. Some (pos', prev', rest', c')) of
        None \<Rightarrow> None
      | Some (pos', prev', rest', c') \<Rightarrow> k pos prev rest c')"
| "ms Bol pos prev rest c k = (if prev = None then k pos prev rest c else None)"
| "ms BolM pos prev rest c k =
     (case prev of
        None \<Rightarrow> k pos prev rest c
      | Some x \<Rightarrow> if isLineTerminator x then k pos prev rest c else None)"
| "ms Eoi pos prev rest c k = (if rest = [] then k pos prev rest c else None)"

definition noCaptures :: captures where
  "noCaptures = (\<lambda>n. None)"

definition accept :: cont where
  "accept pos prev rest c = Some (pos, prev, rest, c)"

text \<open>\<open>matchAt\<close> runs a pattern at one position, with no group captured yet.\<close>

definition matchAt :: "regex \<Rightarrow> nat \<Rightarrow> cu option \<Rightarrow> jsstring \<Rightarrow> mstate option" where
  "matchAt r pos prev rest = ms r pos prev rest noCaptures accept"

text \<open>A match: where it starts and ends in the input, and its capture groups.\<close>

record rmatch =
  mstart :: nat
  mend :: nat
  mcaps :: captures

text \<open>The first match at or after the current position, as \<^verbatim>\<open>RegExp.prototype.exec\<close>
  finds it by trying each start position in turn.\<close>

fun search :: "regex \<Rightarrow> nat \<Rightarrow> cu option \<Rightarrow> jsstring \<Rightarrow> rmatch option" where
  "search r pos prev [] =
     (case matchAt r pos prev [] of
        None \<Rightarrow> None
      | Some (pos', prev', rest', c') \<Rightarrow> Some \<lparr>mstart = pos, mend = pos', mcaps = c'\<rparr>)"
| "search r pos prev (x # xs) =
     (case matchAt r pos prev (x # xs) of
        None \<Rightarrow> search r (Suc pos) (Some x) xs
      | Some (pos', prev', rest', c') \<Rightarrow> Some \<lparr>mstart = pos, mend = pos', mcaps = c'\<rparr>)"

text \<open>\<^verbatim>\<open>s.match(re)\<close> for a pattern without the \<^verbatim>\<open>g\<close> flag.\<close>

definition jsMatch :: "regex \<Rightarrow> jsstring \<Rightarrow> rmatch option" where
  "jsMatch r s = search r 0 None s"

definition whole :: "jsstring \<Rightarrow> rmatch \<Rightarrow> jsstring" where
  "whole s m = substring s (mstart m) (mend m)"

text \<open>\<^verbatim>\<open>m[n]\<close>: \<open>None\<close> is \<^verbatim>\<open>undefined\<close>, the group took no part in the match.\<close>

definition group :: "jsstring \<Rightarrow> rmatch \<Rightarrow> nat \<Rightarrow> jsstring option" where
  "group s m n = (case mcaps m n of None \<Rightarrow> None | Some (i, j) \<Rightarrow> Some (substring s i j))"

text \<open>
  The matches that \<^verbatim>\<open>s.match(re)\<close> and \<^verbatim>\<open>s.replace(re, ...)\<close> collect for a pattern with
  the \<^verbatim>\<open>g\<close> flag: after an empty match the search resumes one code unit further.
\<close>

fun globalMatches :: "regex \<Rightarrow> nat \<Rightarrow> cu option \<Rightarrow> jsstring \<Rightarrow> rmatch list" where
  "globalMatches r pos prev [] =
     (case matchAt r pos prev [] of
        None \<Rightarrow> []
      | Some (pos', prev', rest', c') \<Rightarrow> [\<lparr>mstart = pos, mend = pos', mcaps = c'\<rparr>])"
| "globalMatches r pos prev (x # xs) =
     (case matchAt r pos prev (x # xs) of
        None \<Rightarrow> globalMatches r (Suc pos) (Some x) xs
      | Some (pos', prev', rest', c') \<Rightarrow>
          \<lparr>mstart = pos, mend = pos', mcaps = c'\<rparr> #
          (if length rest' < length (x # xs) then globalMatches r pos' prev' rest'
           else globalMatches r (Suc pos) (Some x) xs))"

datatype replacement = Text jsstring | Dollar1

fun expand :: "replacement \<Rightarrow> jsstring \<Rightarrow> rmatch \<Rightarrow> jsstring" where
  "expand (Text t) s m = t"
| "expand Dollar1 s m = (case group s m 1 of None \<Rightarrow> [] | Some g \<Rightarrow> g)"

fun stitch :: "replacement \<Rightarrow> jsstring \<Rightarrow> nat \<Rightarrow> rmatch list \<Rightarrow> jsstring" where
  "stitch rp s cur [] = drop cur s"
| "stitch rp s cur (m # rest) =
     (if cur \<le> mstart m
      then substring s cur (mstart m) @ expand rp s m @ stitch rp s (mend m) rest
      else stitch rp s cur rest)"

text \<open>\<^verbatim>\<open>s.replace(re, rp)\<close> for a pattern with the \<^verbatim>\<open>g\<close> flag.\<close>

definition replaceG :: "regex \<Rightarrow> replacement \<Rightarrow> jsstring \<Rightarrow> jsstring" where
  "replaceG r rp s = stitch rp s 0 (globalMatches r 0 None s)"

text \<open>\<^verbatim>\<open>s.replace(re, rp)\<close> for a pattern without the \<^verbatim>\<open>g\<close> flag.\<close>

definition replaceFirst :: "regex \<Rightarrow> replacement \<Rightarrow> jsstring \<Rightarrow> jsstring" where
  "replaceFirst r rp s =
     (case jsMatch r s of
        None \<Rightarrow> s
      | Some m \<Rightarrow> take (mstart m) s @ expand rp s m @ drop (mend m) s)"

text \<open>\<^verbatim>\<open>s.match(re)\<close> for a pattern with the \<^verbatim>\<open>g\<close> flag, \<^verbatim>\<open>null\<close> read as no match.\<close>

definition matchG :: "regex \<Rightarrow> jsstring \<Rightarrow> jsstring list" where
  "matchG r s = map (whole s) (globalMatches r 0 None s)"

text \<open>
  The loop \<^verbatim>\<open>while ((match = pattern.exec(text)) !== null)\<close> over a pattern with the
  \<^verbatim>\<open>g\<close> flag. \<^verbatim>\<open>exec\<close> resumes at the end of the last match, so after an empty match
  it finds the same match again and the loop never ends: that is the value \<open>None\<close>.
\<close>

fun execLoop :: "regex \<Rightarrow> nat \<Rightarrow> cu option \<Rightarrow> jsstring \<Rightarrow> rmatch list option" where
  "execLoop r pos prev [] =
     (case matchAt r pos prev [] of None \<Rightarrow> Some [] | Some st \<Rightarrow> None)"
| "execLoop r pos prev (x # xs) =
     (case matchAt r pos prev (x # xs) of
        None \<Rightarrow> execLoop r (Suc pos) (Some x) xs
      | Some (pos', prev', rest', c') \<Rightarrow>
          if length rest' < length (x # xs)
          then map_option ((#) \<lparr>mstart = pos, mend = pos', mcaps = c'\<rparr>)
                 (execLoop r pos' prev' rest')
          else None)"

section \<open>Failures\<close>

text \<open>A method call on \<^verbatim>\<open>undefined\<close> raises a \<^verbatim>\<open>TypeError\<close>; a loop that never ends
  is \<open>Diverges\<close>.\<close>

datatype failure = TypeError | Diverges

definition bindE :: "failure + 'a \<Rightarrow> ('a \<Rightarrow> failure + 'b) \<Rightarrow> failure + 'b" where
  "bindE m f = (case m of Inl e \<Rightarrow> Inl e | Inr x \<Rightarrow> f x)"

fun mapE :: "('a \<Rightarrow> failure + 'b) \<Rightarrow> 'a list \<Rightarrow> failure + 'b list" where
  "mapE f [] = Inr []"
| "mapE f (x # xs) = bindE (f x) (\<lambda>y. bindE (mapE f xs) (\<lambda>ys. Inr (y # ys)))"

text \<open>A capture group used as a string.\<close>

definition groupStr :: "jsstring \<Rightarrow> rmatch \<Rightarrow> nat \<Rightarrow> failure + jsstring" where
  "groupStr s m n = (case group s m n of None \<Rightarrow> Inl TypeError | Some g \<Rightarrow> Inr g)"

section \<open>Context retrieval\<close>

record DsgArticle =
  ident :: jsstring
  heading :: jsstring
  body :: jsstring

text \<open>The class of \<open>tokenize\<close> under the \<^verbatim>\<open>i\<close> flag: the ASCII letters, the umlauts
  U+00E4, U+00F6, U+00FC with their capitals U+00C4, U+00D6, U+00DC, and the sharp s
  U+00DF (which has no one-unit capital).\<close>

definition tokenChar :: "cu \<Rightarrow> bool" where
  "tokenChar c \<longleftrightarrow> isLetter c \<or> c \<in> set [228, 246, 252, 223, 196, 214, 220]"

definition tokenRe :: regex where
  "tokenRe = Plus tokenChar"

text \<open>\<open>tokenize\<close> takes \<^verbatim>\<open>toLowerCase\<close>, which is defined by the Unicode tables, as the
  parameter \<open>lower\<close>.\<close>

definition tokenize :: "(jsstring \<Rightarrow> jsstring) \<Rightarrow> jsstring \<Rightarrow> jsstring list" where
  "tokenize lower v = filter (\<lambda>t. t \<noteq> []) (map trim (matchG tokenRe (lower v)))"

text \<open>\<open>asciiLower\<close> is \<^verbatim>\<open>toLowerCase\<close> on the strings without a capital outside ASCII.\<close>

definition asciiLower :: "jsstring \<Rightarrow> jsstring" where
  "asciiLower s = map (\<lambda>c. if isUpper c then c + 32 else c) s"

definition overlapScore :: "jsstring list \<Rightarrow> jsstring list \<Rightarrow> nat" where
  "overlapScore queryTokens articleTokens =
     fold (\<lambda>token overlap. if token \<in> set articleTokens then overlap + 1 else overlap)
       queryTokens 0"

text \<open>\<^verbatim>\<open>xs.slice(0, n)\<close> for an integer \<open>n\<close>: a negative \<open>n\<close> counts from the end.\<close>

definition slice0 :: "'a list \<Rightarrow> int \<Rightarrow> 'a list" where
  "slice0 xs n = (if n < 0 then take (nat (int (length xs) + n)) xs else take (nat n) xs)"

text \<open>\<^verbatim>\<open>.sort((a, b) => b.score - a.score)\<close>: \<^verbatim>\<open>Array.prototype.sort\<close> is stable, and
  the stable sort of a list by a key is unique.\<close>

definition sortByScore :: "(DsgArticle \<times> nat) list \<Rightarrow> (DsgArticle \<times> nat) list" where
  "sortByScore xs = sort_key (\<lambda>(article, score). - int score) xs"

text \<open>\<open>retrieveDsgContext\<close>, with the loaded collection \<^verbatim>\<open>DSG_ARTICLES\<close> as a parameter;
  \<open>limit = None\<close> is a call without the second argument.\<close>

definition retrieveDsgContext ::
  "(jsstring \<Rightarrow> jsstring) \<Rightarrow> DsgArticle list \<Rightarrow> jsstring \<Rightarrow> int option \<Rightarrow> DsgArticle list" where
  "retrieveDsgContext lower DSG_ARTICLES query limit =
     (if DSG_ARTICLES = [] then []
      else let queryTokens = tokenize lower query in
        if queryTokens = [] then []
        else let scores = map (\<lambda>article.
                   (article, overlapScore queryTokens (tokenize lower (body article))))
                 DSG_ARTICLES
          in map fst (slice0 (sortByScore (filter (\<lambda>(article, score). 0 < score) scores))
                        (case limit of None \<Rightarrow> 5 | Some n \<Rightarrow> n)))"

section \<open>Legal references\<close>

definition SWISS_LAW_URLS :: "(jsstring \<times> jsstring) list" where
  "SWISS_LAW_URLS =
    [(asc ''BV'', asc ''https://www.fedlex.admin.ch/eli/cc/1999/404/de''),
     (asc ''Bundesverfassung'', asc ''https://www.fedlex.admin.ch/eli/cc/1999/404/de''),
     (asc ''SR 101'', asc ''https://www.fedlex.admin.ch/eli/cc/1999/404/de''),
     (asc ''ZGB'', asc ''https://www.fedlex.admin.ch/eli/cc/24/233_245_233/de''),
     (asc ''Zivilgesetzbuch'', asc ''https://www.fedlex.admin.ch/eli/cc/24/233_245_233/de''),
     (asc ''SR 210'', asc ''https://www.fedlex.admin.ch/eli/cc/24/233_245_233/de''),
     (asc ''OR'', asc ''https://www.fedlex.admin.ch/eli/cc/27/317_321_377/de''),
     (asc ''Obligationenrecht'', asc ''https://www.fedlex.admin.ch/eli/cc/27/317_321_377/de''),
     (asc ''SR 220'', asc ''https://www.fedlex.admin.ch/eli/cc/27/317_321_377/de''),
     (asc ''DSG'', asc ''https://www.fedlex.admin.ch/eli/cc/2022/491/de''),
     (asc ''Datenschutzgesetz'', asc ''https://www.fedlex.admin.ch/eli/cc/2022/491/de''),
     (asc ''DSG 2023'', asc ''https://www.fedlex.admin.ch/eli/cc/2022/491/de''),
     (asc ''SR 235.1'', asc ''https://www.fedlex.admin.ch/eli/cc/2022/491/de''),
     (asc ''StGB'', asc ''https://www.fedlex.admin.ch/eli/cc/54/757_781_799/de''),
     (asc ''Strafgesetzbuch'', asc ''https://www.fedlex.admin.ch/eli/cc/54/757_781_799/de''),
     (asc ''SR 311.0'', asc ''https://www.fedlex.admin.ch/eli/cc/54/757_781_799/de'')]"

record LegalReference =
  law :: jsstring
  article :: "jsstring option"
  paragraphNum :: "jsstring option"
  rtext :: jsstring
  url :: jsstring

text \<open>\<^verbatim>\<open>/Art\.\s*(\d+[a-z]?)\s*(?:Abs\.\s*(\d+))?\s*(ABBR|Name)/gi\<close>; under the \<^verbatim>\<open>i\<close>
  flag \<^verbatim>\<open>[a-z]\<close> is any ASCII letter.\<close>

definition citationRe :: "string \<Rightarrow> string \<Rightarrow> regex" where
  "citationRe abbr name = seqs
     [LitI (asc ''Art.''), Star isSpace,
      Group 1 (Seq (Plus isDigit) (Rep isLetter 0 (Some 1) True)),
      Star isSpace,
      Opt (seqs [LitI (asc ''Abs.''), Star isSpace, Group 2 (Plus isDigit)]),
      Star isSpace,
      Group 3 (Alt (LitI (asc abbr)) (LitI (asc name)))]"

definition patterns :: "regex list" where
  "patterns =
    [citationRe ''DSG'' ''Datenschutzgesetz'',
     citationRe ''ZGB'' ''Zivilgesetzbuch'',
     citationRe ''OR'' ''Obligationenrecht'',
     citationRe ''BV'' ''Bundesverfassung'',
     citationRe ''StGB'' ''Strafgesetzbuch'']"

text \<open>\<^verbatim>\<open>SWISS_LAW_URLS[lawAbbr] || SWISS_LAW_URLS[lawAbbr.toUpperCase()]\<close>. The key is a
  match of one of the law names, so no inherited property of the object is ever read.\<close>

definition lookupLaw :: "jsstring \<Rightarrow> jsstring option" where
  "lookupLaw lawAbbr =
     (case map_of SWISS_LAW_URLS lawAbbr of
        Some baseUrl \<Rightarrow> Some baseUrl
      | None \<Rightarrow> map_of SWISS_LAW_URLS (toUpperCase lawAbbr))"

text \<open>The body of the loop: the reference pushed for one match, if any.\<close>

definition toReference :: "jsstring \<Rightarrow> rmatch \<Rightarrow> failure + LegalReference option" where
  "toReference s m =
     (let article = group s m 1; paragraph = group s m 2 in
      bindE (groupStr s m 3) (\<lambda>lawAbbr.
        Inr (case lookupLaw lawAbbr of
               None \<Rightarrow> None
             | Some baseUrl \<Rightarrow>
                 Some \<lparr>law = lawAbbr, article = article, paragraphNum = paragraph,
                       rtext = whole s m,
                       url = (case article of
                                None \<Rightarrow> baseUrl
                              | Some a \<Rightarrow> if a = [] then baseUrl
                                          else baseUrl @ asc ''#art_'' @ a)\<rparr>)))"

fun somes :: "'a option list \<Rightarrow> 'a list" where
  "somes [] = []"
| "somes (None # xs) = somes xs"
| "somes (Some x # xs) = x # somes xs"

definition scanPattern :: "jsstring \<Rightarrow> regex \<Rightarrow> failure + LegalReference list" where
  "scanPattern s pattern =
     (case execLoop pattern 0 None s of
        None \<Rightarrow> Inl Diverges
      | Some found \<Rightarrow> bindE (mapE (toReference s) found) (\<lambda>refs. Inr (somes refs)))"

text \<open>The array \<^verbatim>\<open>references\<close> after \<^verbatim>\<open>patterns.forEach\<close>.\<close>

definition collectReferences :: "jsstring \<Rightarrow> failure + LegalReference list" where
  "collectReferences s = bindE (mapE (scanPattern s) patterns) (\<lambda>found. Inr (concat found))"

text \<open>\<^verbatim>\<open>xs.findIndex(p)\<close>, \<open>-1\<close> when no element satisfies \<open>p\<close>.\<close>

fun findIndexFrom :: "int \<Rightarrow> ('a \<Rightarrow> bool) \<Rightarrow> 'a list \<Rightarrow> int" where
  "findIndexFrom i p [] = -1"
| "findIndexFrom i p (x # xs) = (if p x then i else findIndexFrom (i + 1) p xs)"

definition findIndex :: "('a \<Rightarrow> bool) \<Rightarrow> 'a list \<Rightarrow> int" where
  "findIndex p xs = findIndexFrom 0 p xs"

definition uniqueRefs :: "LegalReference list \<Rightarrow> LegalReference list" where
  "uniqueRefs references =
     map snd (filter (\<lambda>(index, ref). int index = findIndex (\<lambda>r. rtext r = rtext ref) references)
       (enumerate 0 references))"

definition extractLegalReferences :: "jsstring \<Rightarrow> failure + LegalReference list" where
  "extractLegalReferences s = bindE (collectReferences s) (\<lambda>references. Inr (uniqueRefs references))"

section \<open>Cleaning markdown\<close>

text \<open>The seven replacements of \<open>cleanMarkdown\<close>, in the order of the source: bold,
  italic with stars, italic with underscores, code fences, code spans, headings (under
  the \<^verbatim>\<open>m\<close> flag), runs of three or more line feeds.\<close>

definition cleanSteps :: "(regex \<times> replacement) list" where
  "cleanSteps =
    [(seqs [Lit (asc ''**''), Group 1 (Plus (noneOf (asc ''*''))), Lit (asc ''**'')], Dollar1),
     (seqs [Lit (asc ''*''), Group 1 (Plus (noneOf (asc ''*''))), Lit (asc ''*'')], Dollar1),
     (seqs [Lit (asc ''_''), Group 1 (Plus (noneOf (asc ''_''))), Lit (asc ''_'')], Dollar1),
     (seqs [Lit (asc ''```''), StarLazy anyChar, Lit (asc ''```'')], Text []),
     (seqs [Lit (asc ''`''), Group 1 (Plus (noneOf (asc ''`''))), Lit (asc ''`'')], Dollar1),
     (seqs [BolM, Rep (oneOf (asc ''#'')) 1 (Some 6) True, Plus isSpace], Text []),
     (Rep (oneOf [10]) 3 None True, Text [10, 10])]"

definition cleanMarkdown :: "jsstring \<Rightarrow> jsstring" where
  "cleanMarkdown t =
     (if t = [] then t
      else trim (fold (\<lambda>(r, rp) acc. replaceG r rp acc) cleanSteps t))"

section \<open>Parsing the reply\<close>

text \<open>A section pattern of the reply,
  \<^verbatim>\<open>/LABEL:\s*(.+?)(?=(?:NEXT|...|$))/is\<close>: under the \<^verbatim>\<open>s\<close> flag the dot is any
  code unit.\<close>

definition sectionRe :: "regex list \<Rightarrow> string list \<Rightarrow> regex" where
  "sectionRe label nexts = seqs
     (label @ [Star isSpace, Group 1 (PlusLazy anyChar),
               Look (alts (map (\<lambda>l. LitI (asc l)) nexts @ [Eoi]))])"

definition summaryRe :: regex where
  "summaryRe = sectionRe
     [Alt (LitI (asc ''SUMMARY'')) (LitI (asc ''ZUSAMMENFASSUNG'')), LitI (asc '':'')]
     [''BESCHREIBUNG'', ''DESCRIPTION'', ''BRUTTORISIKEN'', ''RISK_LEVEL'']"

definition descriptionRe :: regex where
  "descriptionRe = sectionRe
     [LitI (asc ''BESCHREIBUNG''), Star (noneOf (asc '':'')), LitI (asc '':'')]
     [''POTENTIELL'', ''BRUTTORISIKEN'', ''MASSNAHMEN'']"

definition bruttorisikenRe :: regex where
  "bruttorisikenRe = sectionRe
     [LitI (asc ''POTENTIELL''), Star (noneOf (asc '':'')), LitI (asc ''BRUTTORISIKEN''),
      Star (noneOf (asc '':'')), LitI (asc '':'')]
     [''GEPLANTE'', ''MASSNAHMEN'', ''NETTORISIKEN'']"

definition massnahmenRe :: regex where
  "massnahmenRe = sectionRe
     [LitI (asc ''GEPLANTE''), Star (noneOf (asc '':'')), LitI (asc ''MASSNAHMEN''),
      Star (noneOf (asc '':'')), LitI (asc '':'')]
     [''VERBLEIBENDE'', ''NETTORISIKEN'', ''ERGEBNIS'', ''RISK_LEVEL'', ''EMPFEHLUNGEN'']"

definition nettorisikenRe :: regex where
  "nettorisikenRe = sectionRe
     [LitI (asc ''VERBLEIBENDE''), Star (noneOf (asc '':'')), LitI (asc ''NETTORISIKEN''),
      Star (noneOf (asc '':'')), LitI (asc '':'')]
     [''ERGEBNIS'', ''RISK_LEVEL'', ''EMPFEHLUNGEN'']"

definition ergebnisRe :: regex where
  "ergebnisRe = sectionRe [LitI (asc ''ERGEBNIS:'')] [''RISK_LEVEL'', ''EMPFEHLUNGEN'']"

text \<open>\<^verbatim>\<open>/RISK_LEVEL:\s*(LOW|MEDIUM|HIGH)/i\<close>\<close>

definition riskRe :: regex where
  "riskRe = seqs
     [LitI (asc ''RISK_LEVEL:''), Star isSpace,
      Group 1 (alts [LitI (asc ''LOW''), LitI (asc ''MEDIUM''), LitI (asc ''HIGH'')])]"

text \<open>\<^verbatim>\<open>/EMPFEHLUNGEN:\s*([\s\S]+?)(?=(?:RISK_LEVEL|$))/i\<close>\<close>

definition empfehlungenRe :: regex where
  "empfehlungenRe = seqs
     [LitI (asc ''EMPFEHLUNGEN:''), Star isSpace, Group 1 (PlusLazy anyChar),
      Look (Alt (LitI (asc ''RISK_LEVEL'')) Eoi)]"

text \<open>\<^verbatim>\<open>/RECOMMENDATIONS:\s*([\s\S]+?)(?=\n\n|$)/i\<close>\<close>

definition recommendationsRe :: regex where
  "recommendationsRe = seqs
     [LitI (asc ''RECOMMENDATIONS:''), Star isSpace, Group 1 (PlusLazy anyChar),
      Look (Alt (LitI [10, 10]) Eoi)]"

text \<open>The markers at the start of a line: \<^verbatim>\<open>/^[\d]+[\.\)]\s*/\<close>,
  \<^verbatim>\<open>/^[\(][a-zA-Z][\)]\s*/\<close> and \<^verbatim>\<open>/^[-\u2022*]\s*/\<close>, the class of the last one
  being the hyphen, the bullet U+2022 (a literal character in the source) and the star.\<close>

definition numberMarkerRe :: regex where
  "numberMarkerRe = seqs [Bol, Plus isDigit, Cls (oneOf (asc ''.)'')), Star isSpace]"

definition letterMarkerRe :: regex where
  "letterMarkerRe = seqs
     [Bol, Cls (oneOf (asc ''('')), Cls isLetter, Cls (oneOf (asc '')'')), Star isSpace]"

definition bulletMarkerRe :: regex where
  "bulletMarkerRe = seqs [Bol, Cls (oneOf [45, 8226, 42]), Star isSpace]"

text \<open>\<^verbatim>\<open>/^[\(][\d]+[\)]\s*$/\<close>\<close>

definition bareNumberRe :: regex where
  "bareNumberRe = seqs
     [Bol, Cls (oneOf (asc ''('')), Plus isDigit, Cls (oneOf (asc '')'')), Star isSpace, Eoi]"

text \<open>\<^verbatim>\<open>/^[\d]+[\.\)]\s+|^[\(][a-zA-Z][\)]\s+|^[-\u2022*]\s+/\<close>\<close>

definition markedLineRe :: regex where
  "markedLineRe = alts
     [seqs [Bol, Plus isDigit, Cls (oneOf (asc ''.)'')), Plus isSpace],
      seqs [Bol, Cls (oneOf (asc ''('')), Cls isLetter, Cls (oneOf (asc '')'')), Plus isSpace],
      seqs [Bol, Cls (oneOf [45, 8226, 42]), Plus isSpace]]"

definition test :: "regex \<Rightarrow> jsstring \<Rightarrow> bool" where
  "test r s \<longleftrightarrow> jsMatch r s \<noteq> None"

definition extractSummary :: "jsstring \<Rightarrow> failure + jsstring" where
  "extractSummary response =
     (case jsMatch summaryRe response of
        None \<Rightarrow> Inr (asc ''Keine Zusammenfassung vorhanden.'')
      | Some m \<Rightarrow> bindE (groupStr response m 1) (\<lambda>g. Inr (cleanMarkdown (trim g))))"

text \<open>An optional section: \<open>None\<close> is \<^verbatim>\<open>undefined\<close>.\<close>

definition extractSection :: "regex \<Rightarrow> jsstring \<Rightarrow> failure + jsstring option" where
  "extractSection r response =
     (case jsMatch r response of
        None \<Rightarrow> Inr None
      | Some m \<Rightarrow> bindE (groupStr response m 1) (\<lambda>g. Inr (Some (cleanMarkdown (trim g)))))"

definition extractRiskLevel :: "jsstring \<Rightarrow> failure + jsstring" where
  "extractRiskLevel response =
     (case jsMatch riskRe response of
        None \<Rightarrow> Inr (asc ''UNKNOWN'')
      | Some m \<Rightarrow> bindE (groupStr response m 1) (\<lambda>g. Inr (toUpperCase g)))"

text \<open>The three replacements that remove a leading marker from a line.\<close>

definition stripMarkers :: "jsstring \<Rightarrow> jsstring" where
  "stripMarkers line =
     replaceFirst bulletMarkerRe (Text [])
       (replaceFirst letterMarkerRe (Text [])
         (replaceFirst numberMarkerRe (Text []) line))"

text \<open>First tier: the section \<^verbatim>\<open>EMPFEHLUNGEN\<close>.\<close>

definition empfehlungenTier :: "jsstring \<Rightarrow> failure + jsstring list" where
  "empfehlungenTier response =
     (case jsMatch empfehlungenRe response of
        None \<Rightarrow> Inr []
      | Some m \<Rightarrow>
          bindE (groupStr response m 1) (\<lambda>g.
            Inr (take 10
              (filter (\<lambda>line. 10 < length line \<and> \<not> test bareNumberRe line)
                (map (\<lambda>line. trim (stripMarkers line)) (split 10 (cleanMarkdown g)))))))"

text \<open>Second tier: what one line of the section \<^verbatim>\<open>MASSNAHMEN\<close> is mapped to,
  \<open>None\<close> for \<^verbatim>\<open>null\<close>.\<close>

definition measureLine :: "jsstring \<Rightarrow> jsstring option" where
  "measureLine line0 =
     (let line = cleanMarkdown line0 in
      if test markedLineRe line then
        (let line' = stripMarkers line; parts = split 58 line' in
         if 1 < length parts then Some (trim (join 58 (tl parts))) else Some (trim line'))
      else None)"

definition massnahmenTier :: "jsstring \<Rightarrow> jsstring list" where
  "massnahmenTier massnahmen =
     take 10 (somes
       (filter (\<lambda>line. case line of None \<Rightarrow> False | Some l \<Rightarrow> 10 < length l)
         (map measureLine (split 10 massnahmen))))"

text \<open>Third tier: the old format \<^verbatim>\<open>RECOMMENDATIONS\<close>.\<close>

definition recommendationsTier :: "jsstring \<Rightarrow> failure + jsstring list" where
  "recommendationsTier response =
     bindE (case jsMatch recommendationsRe response of
              None \<Rightarrow> Inr []
            | Some m \<Rightarrow> bindE (groupStr response m 1) (\<lambda>g. Inr (cleanMarkdown g)))
       (\<lambda>recommendationsText.
          Inr (filter (\<lambda>line. 0 < length line)
                (map (\<lambda>line. trim (stripMarkers line)) (split 10 recommendationsText))))"

text \<open>The variable \<^verbatim>\<open>recommendations\<close> before the placeholder is substituted.\<close>

definition extractRecommendations :: "jsstring \<Rightarrow> jsstring option \<Rightarrow> failure + jsstring list" where
  "extractRecommendations response massnahmen =
     bindE (empfehlungenTier response) (\<lambda>tier1.
       let tier2 = (case massnahmen of
                      None \<Rightarrow> tier1
                    | Some m \<Rightarrow> if tier1 = [] \<and> m \<noteq> [] then massnahmenTier m else tier1)
       in if tier2 = [] then recommendationsTier response else Inr tier2)"

record StructuredAssessment =
  summary :: jsstring
  riskLevel :: jsstring
  analysis :: jsstring
  recommendations :: "jsstring list"
  legalReferences :: "LegalReference list"
  description :: "jsstring option"
  bruttorisiken :: "jsstring option"
  massnahmen :: "jsstring option"
  nettorisiken :: "jsstring option"
  ergebnis :: "jsstring option"

definition parseResponse :: "jsstring \<Rightarrow> failure + StructuredAssessment" where
  "parseResponse response =
     bindE (extractSummary response) (\<lambda>summary.
     bindE (extractSection descriptionRe response) (\<lambda>description.
     bindE (extractSection bruttorisikenRe response) (\<lambda>bruttorisiken.
     bindE (extractSection massnahmenRe response) (\<lambda>massnahmen.
     bindE (extractSection nettorisikenRe response) (\<lambda>nettorisiken.
     bindE (extractSection ergebnisRe response) (\<lambda>ergebnis.
     bindE (extractRiskLevel response) (\<lambda>riskLevel.
     bindE (extractRecommendations response massnahmen) (\<lambda>recommendations.
     bindE (extractLegalReferences response) (\<lambda>legalReferences.
       Inr \<lparr>summary = summary,
            riskLevel = riskLevel,
            analysis = response,
            recommendations =
              (if 0 < length recommendations then recommendations
               else [asc ''Keine Empfehlungen vorhanden.'']),
            legalReferences = legalReferences,
            description = description,
            bruttorisiken = bruttorisiken,
            massnahmen = massnahmen,
            nettorisiken = nettorisiken,
            ergebnis = ergebnis\<rparr>)))))))))"

section \<open>Notions used in the proofs\<close>

text \<open>\<open>tiersResult\<close> is the variable \<^verbatim>\<open>recommendations\<close> of \<open>parseResponse\<close> after the
  three tiers, before the placeholder is substituted.\<close>

definition tiersResult :: "jsstring \<Rightarrow> failure + jsstring list" where
  "tiersResult response =
     bindE (extractSection massnahmenRe response) (\<lambda>mo. extractRecommendations response mo)"

text \<open>Replies on which the program is evaluated.\<close>

definition replyUnknownRisk :: jsstring where
  "replyUnknownRisk = asc ''RISK_LEVEL: SEVERE''"

definition replyNothing :: jsstring where
  "replyNothing = asc ''Hallo''"

definition reply3 :: jsstring where
  "reply3 = asc ''SUMMARY: Hello. RISK_LEVEL: HIGH RECOMMENDATIONS:'' @ [10] @
     asc ''- Do X (Art. 5 DSG)'' @ [10] @ asc ''- Do Y''"

definition replyTier1 :: jsstring where
  "replyTier1 = asc ''EMPFEHLUNGEN:'' @ [10] @ asc ''1. Daten verschluesseln (Art. 8 DSG)'' @
     [10] @ asc ''2. kurz''"

definition lineDash :: jsstring where
  "lineDash = asc ''- Zugriff: Rollen definieren (Art. 8 DSG)''"

definition replyTier2 :: jsstring where
  "replyTier2 = asc ''GEPLANTE MASSNAHMEN:'' @ [10] @ lineDash"

definition replyLegacy11 :: jsstring where
  "replyLegacy11 = asc ''RECOMMENDATIONS:'' @ concat (map (\<lambda>c. [10, c]) (asc ''abcdefghijk''))"

definition measureText :: jsstring where
  "measureText = asc ''Verschl'' @ [252] @ asc ''sselung der Daten: weil sensibel (Art. 8 DSG)''"

definition lineParen1 :: jsstring where
  "lineParen1 = asc ''(1) '' @ measureText"

definition lineParenA :: jsstring where
  "lineParenA = asc ''(a) '' @ measureText"

definition markedLines :: "jsstring list" where
  "markedLines = [asc ''1. '' @ measureText, asc ''1) '' @ measureText, lineParenA,
     asc ''- '' @ measureText]"

definition replyParen1 :: jsstring where
  "replyParen1 = asc ''GEPLANTE MASSNAHMEN:'' @ [10] @ lineParen1"

definition replyParenA :: jsstring where
  "replyParenA = asc ''GEPLANTE MASSNAHMEN:'' @ [10] @ lineParenA"

text \<open>The entries of the second tier before \<^verbatim>\<open>.slice(0, 10)\<close>.\<close>

definition massnahmenEntries :: "jsstring \<Rightarrow> jsstring list" where
  "massnahmenEntries m = somes
       (filter (\<lambda>line. case line of None \<Rightarrow> False | Some l \<Rightarrow> 10 < length l)
         (map measureLine (split 10 m)))"

text \<open>The lines of a section text as the first and the third tier see them: split at the
  line feeds, the leading marker stripped, the result trimmed.\<close>

definition strippedLines :: "jsstring \<Rightarrow> jsstring list" where
  "strippedLines t = map (\<lambda>line. trim (stripMarkers line)) (split 10 t)"

text \<open>The first capture group of the first match of a pattern, \<open>None\<close> when the pattern
  matches nowhere.\<close>

definition sectionGroup :: "regex \<Rightarrow> jsstring \<Rightarrow> jsstring option" where
  "sectionGroup r response =
     (case jsMatch r response of None \<Rightarrow> None | Some m \<Rightarrow> group response m 1)"

text \<open>The candidates of the three tiers, before each tier filters them: the stripped lines
  of the cleaned section \<^verbatim>\<open>EMPFEHLUNGEN\<close>; the entries that the second tier computes from
  the marked lines of the section \<^verbatim>\<open>MASSNAHMEN\<close> (marker stripped, the text after the first
  colon, trimmed); the stripped lines of the cleaned section \<^verbatim>\<open>RECOMMENDATIONS\<close>.\<close>

definition empfehlungenLines :: "jsstring \<Rightarrow> jsstring list" where
  "empfehlungenLines response =
     (case sectionGroup empfehlungenRe response of
        None \<Rightarrow> []
      | Some g \<Rightarrow> strippedLines (cleanMarkdown g))"

definition massnahmenLines :: "jsstring \<Rightarrow> jsstring list" where
  "massnahmenLines response =
     (case sectionGroup massnahmenRe response of
        None \<Rightarrow> []
      | Some g \<Rightarrow> somes (map measureLine (split 10 (cleanMarkdown (trim g)))))"

definition recommendationsLines :: "jsstring \<Rightarrow> jsstring list" where
  "recommendationsLines response =
     strippedLines (case sectionGroup recommendationsRe response of
                      None \<Rightarrow> []
                    | Some g \<Rightarrow> cleanMarkdown g)"

text \<open>Replies with lines that the specification calls noise: a short line and a bare
  parenthesised number in each of the three sections.\<close>

definition replyNoise1 :: jsstring where
  "replyNoise1 = asc ''EMPFEHLUNGEN:'' @ [10] @ asc ''1. Daten verschluesseln (Art. 8 DSG)'' @
     [10] @ asc ''2. kurz'' @ [10] @ asc ''3. (12345678901)''"

definition measuresNoise :: jsstring where
  "measuresNoise = asc ''- (12345678901)'' @ [10] @ asc ''- kurz'' @ [10] @
     asc ''ohne Marker, aber lang genug''"

definition replyNoise2 :: jsstring where
  "replyNoise2 = asc ''GEPLANTE MASSNAHMEN:'' @ [10] @ measuresNoise"

definition replyNoise3 :: jsstring where
  "replyNoise3 = asc ''RECOMMENDATIONS:'' @ [10] @ asc ''- (1)'' @ [10] @ asc ''- Do Y'' @
     [10] @ asc ''-''"


definition textArt5 :: jsstring where
  "textArt5 = asc ''Siehe Art. 5 DSG.''"

definition refArt5 :: LegalReference where
  "refArt5 = \<lparr>law = asc ''DSG'', article = Some (asc ''5''), paragraphNum = None,
     rtext = asc ''Art. 5 DSG'',
     url = asc ''https://www.fedlex.admin.ch/eli/cc/2022/491/de#art_5''\<rparr>"

text \<open>\<open>firstAt xs j\<close>: no earlier reference of \<open>xs\<close> has the text of the one at \<open>j\<close>.\<close>

definition firstAt :: "LegalReference list \<Rightarrow> nat \<Rightarrow> bool" where
  "firstAt xs j \<longleftrightarrow> (\<forall>k<j. rtext (xs ! k) \<noteq> rtext (xs ! j))"

text \<open>The citation occurrences of a text: the matches that the five loops find.\<close>

definition citationMatches :: "jsstring \<Rightarrow> rmatch list" where
  "citationMatches s =
     concat (map (\<lambda>p. case execLoop p 0 None s of None \<Rightarrow> [] | Some found \<Rightarrow> found) patterns)"

text \<open>The score of the code, as a count: the query tokens, with their repetitions, that
  are in the token set of the article.\<close>

definition occurrenceScore :: "(jsstring \<Rightarrow> jsstring) \<Rightarrow> jsstring \<Rightarrow> DsgArticle \<Rightarrow> nat" where
  "occurrenceScore lower query a =
     length (filter (\<lambda>t. t \<in> set (tokenize lower (body a))) (tokenize lower query))"

text \<open>The score and the retrieval in the words of the specification: the count of
  distinct query tokens present in the token set of the article.\<close>

definition distinctScore :: "(jsstring \<Rightarrow> jsstring) \<Rightarrow> jsstring \<Rightarrow> DsgArticle \<Rightarrow> nat" where
  "distinctScore lower query a =
     length (remdups (filter (\<lambda>t. t \<in> set (tokenize lower (body a))) (tokenize lower query)))"

definition specRetrieveContext ::
  "(jsstring \<Rightarrow> jsstring) \<Rightarrow> DsgArticle list \<Rightarrow> jsstring \<Rightarrow> nat \<Rightarrow> DsgArticle list" where
  "specRetrieveContext lower arts query limit =
     take limit (sort_key (\<lambda>a. - int (distinctScore lower query a))
       (filter (\<lambda>a. 0 < distinctScore lower query a) arts))"

text \<open>Articles and queries on which the retrieval is evaluated.\<close>

definition artDaten :: DsgArticle where
  "artDaten = \<lparr>ident = asc ''Art. 1'', heading = asc ''Zweck'', body = asc ''daten''\<rparr>"

definition artSchutz :: DsgArticle where
  "artSchutz = \<lparr>ident = asc ''Art. 2'', heading = asc ''Geltung'', body = asc ''schutz recht''\<rparr>"

definition queryRepeat :: jsstring where
  "queryRepeat = asc ''daten daten daten schutz recht''"

definition artA :: DsgArticle where
  "artA = \<lparr>ident = asc ''Art. 8'', heading = asc ''Datensicherheit'',
     body = asc ''Verschl'' @ [252] @ asc ''sselung der Personendaten''\<rparr>"

definition artB :: DsgArticle where
  "artB = \<lparr>ident = asc ''Art. 6'', heading = asc ''Grunds'' @ [228] @ asc ''tze'',
     body = asc ''Bearbeitung der Personendaten''\<rparr>"

definition queryTwo :: jsstring where
  "queryTwo = asc ''Verschl'' @ [252] @ asc ''sselung personendaten''"

text \<open>The ranking before \<^verbatim>\<open>.slice(0, limit)\<close>.\<close>

definition ranking :: "(jsstring \<Rightarrow> jsstring) \<Rightarrow> DsgArticle list \<Rightarrow> jsstring \<Rightarrow> DsgArticle list" where
  "ranking lower arts query =
     sort_key (\<lambda>a. - int (occurrenceScore lower query a))
       (filter (\<lambda>a. 0 < occurrenceScore lower query a) arts)"











text \<open>What a successful run of a matcher guarantees: the position only advances, the
  rest of the input is the old rest without the consumed prefix, and no capture is lost.\<close>

definition ext :: "nat \<Rightarrow> jsstring \<Rightarrow> captures \<Rightarrow> nat \<Rightarrow> jsstring \<Rightarrow> captures \<Rightarrow> bool" where
  "ext pos rest c pos' rest' c' \<longleftrightarrow>
     pos \<le> pos' \<and> pos' - pos \<le> length rest \<and> rest' = drop (pos' - pos) rest \<and>
     (\<forall>n. c n \<noteq> None \<longrightarrow> c' n \<noteq> None)"

fun definesGroup :: "regex \<Rightarrow> nat \<Rightarrow> bool" where
  "definesGroup (Seq a b) n \<longleftrightarrow> definesGroup a n \<or> definesGroup b n"
| "definesGroup (Alt a b) n \<longleftrightarrow> definesGroup a n \<and> definesGroup b n"
| "definesGroup (Group m a) n \<longleftrightarrow> m = n \<or> definesGroup a n"
| "definesGroup (Look a) n \<longleftrightarrow> definesGroup a n"
| "definesGroup r n \<longleftrightarrow> False"

fun consumes :: "regex \<Rightarrow> bool" where
  "consumes (Lit w) \<longleftrightarrow> w \<noteq> []"
| "consumes (LitI w) \<longleftrightarrow> w \<noteq> []"
| "consumes (Cls p) \<longleftrightarrow> True"
| "consumes (Rep p lo hi g) \<longleftrightarrow> 0 < lo"
| "consumes (Seq a b) \<longleftrightarrow> consumes a \<or> consumes b"
| "consumes (Alt a b) \<longleftrightarrow> consumes a \<and> consumes b"
| "consumes (Group m a) \<longleftrightarrow> consumes a"
| "consumes r \<longleftrightarrow> False"

definition post :: "regex \<Rightarrow> nat \<Rightarrow> jsstring \<Rightarrow> captures \<Rightarrow> nat \<Rightarrow> jsstring \<Rightarrow> captures \<Rightarrow> bool" where
  "post r pos rest c pos' rest' c' \<longleftrightarrow>
     ext pos rest c pos' rest' c' \<and> (\<forall>n. definesGroup r n \<longrightarrow> c' n \<noteq> None) \<and>
     (consumes r \<longrightarrow> pos < pos')"

text \<open>The definitions unfolded to evaluate the program on a concrete input.\<close>

lemmas cls_defs = isSpace_def isLineTerminator_def isDigit_def isLower_def isUpper_def
  isLetter_def anyChar_def oneOf_def noneOf_def canon_def tokenChar_def

lemmas re_defs = sectionRe_def summaryRe_def descriptionRe_def bruttorisikenRe_def
  massnahmenRe_def nettorisikenRe_def ergebnisRe_def riskRe_def empfehlungenRe_def
  recommendationsRe_def numberMarkerRe_def letterMarkerRe_def bulletMarkerRe_def
  bareNumberRe_def markedLineRe_def cleanSteps_def citationRe_def patterns_def tokenRe_def

lemmas run_defs = asc_def noCaptures_def accept_def matchAt_def jsMatch_def whole_def
  group_def groupStr_def substring_def replaceG_def replaceFirst_def matchG_def bindE_def
  test_def trim_def toUpperCase_def cleanMarkdown_def stripMarkers_def

section \<open>Properties of the matcher\<close>

lemma matchLit_SomeD:
  "matchLit ci w pos prev rest = Some (pos', prev', rest') \<Longrightarrow>
     pos' = pos + length w \<and> length w \<le> length rest \<and> rest' = drop (length w) rest \<and>
     (if ci then map canon (take (length w) rest) = map canon w else take (length w) rest = w)"
  by (induction ci w pos prev rest rule: matchLit.induct) (auto split: if_splits)

lemma rep_SomeD:
  "rep p lo hi g pos prev rest k = Some st \<Longrightarrow>
     \<exists>n prev'. n \<le> length rest \<and> lo \<le> n \<and> k (pos + n) prev' (drop n rest) = Some st \<and>
       (\<forall>i<n. p (rest ! i))"
proof (induction p lo hi g pos prev rest k rule: rep.induct)
  case (1 p lo hi greedy pos prev k)
  then show ?case by (auto split: if_splits)
next
  case (2 p lo hi greedy pos prev x xs k)
  have step: "\<exists>n prev'. n \<le> length (x # xs) \<and> lo \<le> n \<and>
      k (pos + n) prev' (drop n (x # xs)) = Some st \<and> (\<forall>i<n. p ((x # xs) ! i))"
    if px: "p x" and r: "rep p (lo - 1) (dec hi) greedy (Suc pos) (Some x) xs k = Some st"
      and ih: "rep p (lo - 1) (dec hi) greedy (Suc pos) (Some x) xs k = Some st \<Longrightarrow>
        \<exists>n prev'. n \<le> length xs \<and> lo - 1 \<le> n \<and> k (Suc pos + n) prev' (drop n xs) = Some st \<and>
          (\<forall>i<n. p (xs ! i))"
  proof -
    from ih [OF r] obtain n prev' where n: "n \<le> length xs" "lo - 1 \<le> n"
      "k (Suc pos + n) prev' (drop n xs) = Some st" "\<forall>i<n. p (xs ! i)" by blast
    have "\<forall>i<Suc n. p ((x # xs) ! i)" using px n(4) by (auto simp: nth_Cons split: nat.splits)
    with n show ?thesis by (intro exI [of _ "Suc n"] exI [of _ prev']) auto
  qed
  have stay: "\<exists>n prev'. n \<le> length (x # xs) \<and> lo \<le> n \<and>
      k (pos + n) prev' (drop n (x # xs)) = Some st \<and> (\<forall>i<n. p ((x # xs) ! i))"
    if "lo = 0" "k pos prev (x # xs) = Some st"
    using that by (intro exI [of _ 0] exI [of _ prev]) auto
  show ?case
  proof (cases "0 < lo")
    case True
    with "2.prems" have "p x" "hi \<noteq> Some 0"
      "rep p (lo - 1) (dec hi) greedy (Suc pos) (Some x) xs k = Some st"
      by (auto split: if_splits)
    with True "2.IH"(1) show ?thesis using step by blast
  next
    case lo0: False
    show ?thesis
    proof (cases greedy)
      case True
      show ?thesis
      proof (cases "p x \<and> hi \<noteq> Some 0 \<and> rep p 0 (dec hi) greedy (Suc pos) (Some x) xs k = Some st")
        case t: True
        then show ?thesis using step [of ] "2.IH"(2) lo0 True by auto
      next
        case False
        with "2.prems" lo0 True have "k pos prev (x # xs) = Some st"
          by (auto split: if_splits option.splits)
        with lo0 show ?thesis using stay by simp
      qed
    next
      case False
      show ?thesis
      proof (cases "k pos prev (x # xs) = Some st")
        case True
        with lo0 show ?thesis using stay by simp
      next
        case nk: False
        with "2.prems" lo0 False have "k pos prev (x # xs) = None" "p x" "hi \<noteq> Some 0"
          "rep p 0 (dec hi) greedy (Suc pos) (Some x) xs k = Some st"
          by (auto split: if_splits option.splits)
        then show ?thesis using step "2.IH"(3) lo0 False by auto
      qed
    qed
  qed
qed


lemma ms_sound:
  "ms r pos prev rest c k = Some st \<Longrightarrow>
     \<exists>pos' prev' rest' c'. k pos' prev' rest' c' = Some st \<and> post r pos rest c pos' rest' c'"
proof (induction r arbitrary: pos prev rest c k st)
  case (Lit w)
  then obtain pos' prev' rest' where m: "matchLit False w pos prev rest = Some (pos', prev', rest')"
    and k: "k pos' prev' rest' c = Some st"
    by (auto split: option.splits)
  from matchLit_SomeD [OF m] have "post (Lit w) pos rest c pos' rest' c"
    by (auto simp: post_def ext_def)
  with k show ?case by blast
next
  case (LitI w)
  then obtain pos' prev' rest' where m: "matchLit True w pos prev rest = Some (pos', prev', rest')"
    and k: "k pos' prev' rest' c = Some st"
    by (auto split: option.splits)
  from matchLit_SomeD [OF m] have "post (LitI w) pos rest c pos' rest' c"
    by (auto simp: post_def ext_def)
  with k show ?case by blast
next
  case (Cls p)
  then obtain x xs where "rest = x # xs" "k (Suc pos) (Some x) xs c = Some st"
    by (auto split: list.splits if_splits)
  moreover from this have "post (Cls p) pos rest c (Suc pos) xs c"
    by (auto simp: post_def ext_def)
  ultimately show ?case by blast
next
  case (Rep p lo hi g)
  then have "rep p lo hi g pos prev rest (\<lambda>pos' prev' rest'. k pos' prev' rest' c) = Some st"
    by simp
  from rep_SomeD [OF this] obtain n prev' where n: "n \<le> length rest" "lo \<le> n"
    "k (pos + n) prev' (drop n rest) c = Some st" by blast
  then have "post (Rep p lo hi g) pos rest c (pos + n) (drop n rest) c"
    by (auto simp: post_def ext_def)
  with n show ?case by blast
next
  case (Seq a b)
  then have "ms a pos prev rest c (\<lambda>pos' prev' rest' c'. ms b pos' prev' rest' c' k) = Some st"
    by simp
  from Seq.IH(1) [OF this] obtain p1 pr1 r1 c1 where
    1: "ms b p1 pr1 r1 c1 k = Some st" "post a pos rest c p1 r1 c1" by blast
  from Seq.IH(2) [OF 1(1)] obtain p2 pr2 r2 c2 where
    2: "k p2 pr2 r2 c2 = Some st" "post b p1 r1 c1 p2 r2 c2" by blast
  from 1(2) 2(2) have "post (Seq a b) pos rest c p2 r2 c2"
    unfolding post_def ext_def by (auto simp: post_def ext_def)
  with 2(1) show ?case by blast
next
  case (Alt a b)
  show ?case
  proof (cases "ms a pos prev rest c k")
    case None
    with Alt.prems have "ms b pos prev rest c k = Some st" by simp
    from Alt.IH(2) [OF this] obtain p1 pr1 r1 c1 where
      1: "k p1 pr1 r1 c1 = Some st" "post b pos rest c p1 r1 c1" by blast
    from 1(2) have "post (Alt a b) pos rest c p1 r1 c1" by (simp add: post_def)
    with 1(1) show ?thesis by blast
  next
    case (Some st')
    with Alt.prems have "ms a pos prev rest c k = Some st" by simp
    from Alt.IH(1) [OF this] obtain p1 pr1 r1 c1 where
      1: "k p1 pr1 r1 c1 = Some st" "post a pos rest c p1 r1 c1" by blast
    from 1(2) have "post (Alt a b) pos rest c p1 r1 c1" by (simp add: post_def)
    with 1(1) show ?thesis by blast
  qed
next
  case (Opt a)
  show ?case
  proof (cases "ms a pos prev rest c k")
    case None
    with Opt.prems have "k pos prev rest c = Some st" by simp
    moreover have "post (Opt a) pos rest c pos rest c" by (simp add: post_def ext_def)
    ultimately show ?thesis by blast
  next
    case (Some st')
    with Opt.prems have "ms a pos prev rest c k = Some st" by simp
    from Opt.IH [OF this] obtain p1 pr1 r1 c1 where
      1: "k p1 pr1 r1 c1 = Some st" "post a pos rest c p1 r1 c1" by blast
    from 1(2) have "post (Opt a) pos rest c p1 r1 c1" by (simp add: post_def)
    with 1(1) show ?thesis by blast
  qed
next
  case (Group m a)
  then have "ms a pos prev rest c (\<lambda>pos' prev' rest' c'. k pos' prev' rest' (c'(m \<mapsto> (pos, pos')))) = Some st"
    by simp
  from Group.IH [OF this] obtain p1 pr1 r1 c1 where
    1: "k p1 pr1 r1 (c1(m \<mapsto> (pos, p1))) = Some st" "post a pos rest c p1 r1 c1" by blast
  from 1(2) have "post (Group m a) pos rest c p1 r1 (c1(m \<mapsto> (pos, p1)))"
    by (auto simp: post_def ext_def)
  with 1(1) show ?case by blast
next
  case (Look a)
  then obtain p1 pr1 r1 c1 where
    1: "ms a pos prev rest c (\<lambda>pos' prev' rest' c'. Some (pos', prev', rest', c')) = Some (p1, pr1, r1, c1)"
    and k: "k pos prev rest c1 = Some st"
    by (auto split: option.splits)
  from Look.IH [OF 1] have "post a pos rest c p1 r1 c1" by auto
  then have "post (Look a) pos rest c pos rest c1" by (auto simp: post_def ext_def)
  with k show ?case by blast
next
  case Bol
  then have "k pos prev rest c = Some st" by (auto split: if_splits)
  moreover have "post Bol pos rest c pos rest c" by (simp add: post_def ext_def)
  ultimately show ?case by blast
next
  case BolM
  then have "k pos prev rest c = Some st" by (auto split: if_splits option.splits)
  moreover have "post BolM pos rest c pos rest c" by (simp add: post_def ext_def)
  ultimately show ?case by blast
next
  case Eoi
  then have "k pos prev rest c = Some st" by (auto split: if_splits)
  moreover have "post Eoi pos rest c pos rest c" by (simp add: post_def ext_def)
  ultimately show ?case by blast
qed

lemma matchAt_SomeD:
  "matchAt r pos prev rest = Some (pos', prev', rest', c') \<Longrightarrow> post r pos rest noCaptures pos' rest' c'"
  unfolding matchAt_def by (drule ms_sound) (auto simp: accept_def)

lemma search_SomeD:
  "search r pos prev rest = Some m \<Longrightarrow>
     \<exists>n prev0 prev' rest'. n \<le> length rest \<and> mstart m = pos + n \<and>
       matchAt r (pos + n) prev0 (drop n rest) = Some (mend m, prev', rest', mcaps m)"
proof (induction r pos prev rest rule: search.induct)
  case (1 r pos prev)
  then obtain pos' prev' rest' c' where
    "matchAt r pos prev [] = Some (pos', prev', rest', c')" "mstart m = pos" "mend m = pos'"
    "mcaps m = c'"
    by (auto split: option.splits)
  then show ?case
    by (intro exI [of _ 0] exI [of _ prev] exI [of _ prev'] exI [of _ rest']) simp
next
  case (2 r pos prev x xs)
  show ?case
  proof (cases "matchAt r pos prev (x # xs)")
    case None
    with 2 obtain n prev0 prev' rest' where "n \<le> length xs" "mstart m = Suc pos + n"
      "matchAt r (Suc pos + n) prev0 (drop n xs) = Some (mend m, prev', rest', mcaps m)"
      by auto
    then show ?thesis
      by (intro exI [of _ "Suc n"] exI [of _ prev0] exI [of _ prev'] exI [of _ rest']) auto
  next
    case (Some st)
    with "2.prems" obtain pos' prev' rest' c' where
      "matchAt r pos prev (x # xs) = Some (pos', prev', rest', c')" "mstart m = pos"
      "mend m = pos'" "mcaps m = c'"
      by (auto split: prod.splits)
    then show ?thesis
      by (intro exI [of _ 0] exI [of _ prev] exI [of _ prev'] exI [of _ rest']) simp
  qed
qed

lemma jsMatch_defines:
  assumes "jsMatch r s = Some m" and "definesGroup r n"
  shows "\<exists>g. groupStr s m n = Inr g"
proof -
  from assms(1) obtain k prev0 prev' rest' where
    "matchAt r (0 + k) prev0 (drop k s) = Some (mend m, prev', rest', mcaps m)"
    unfolding jsMatch_def by (blast dest: search_SomeD)
  from matchAt_SomeD [OF this] assms(2) have "mcaps m n \<noteq> None"
    by (auto simp: post_def)
  then show ?thesis by (auto simp: groupStr_def group_def split: option.splits)
qed

lemma definesGroup_seqs: "\<exists>r \<in> set rs. definesGroup r n \<Longrightarrow> definesGroup (seqs rs) n"
  by (induction rs rule: seqs.induct) auto

lemma sectionRe_defines: "definesGroup (sectionRe label nexts) 1"
  unfolding sectionRe_def by (rule definesGroup_seqs) simp

lemma extractSection_total:
  "\<exists>v. extractSection (sectionRe label nexts) response = Inr v"
proof (cases "jsMatch (sectionRe label nexts) response")
  case None
  then show ?thesis by (simp add: extractSection_def)
next
  case (Some m)
  from jsMatch_defines [OF Some sectionRe_defines] obtain g where "groupStr response m 1 = Inr g" ..
  with Some show ?thesis by (simp add: extractSection_def bindE_def)
qed

lemma extractSummary_total: "\<exists>v. extractSummary response = Inr v"
proof (cases "jsMatch summaryRe response")
  case None
  then show ?thesis by (simp add: extractSummary_def)
next
  case (Some m)
  have "definesGroup summaryRe 1" unfolding summaryRe_def by (rule sectionRe_defines)
  from jsMatch_defines [OF Some this] obtain g where "groupStr response m 1 = Inr g" ..
  with Some show ?thesis by (simp add: extractSummary_def bindE_def)
qed

lemma extractRiskLevel_total: "\<exists>v. extractRiskLevel response = Inr v"
proof (cases "jsMatch riskRe response")
  case None
  then show ?thesis by (simp add: extractRiskLevel_def)
next
  case (Some m)
  have "definesGroup riskRe 1" by (simp add: riskRe_def)
  from jsMatch_defines [OF Some this] obtain g where "groupStr response m 1 = Inr g" ..
  with Some show ?thesis by (simp add: extractRiskLevel_def bindE_def)
qed

lemma empfehlungenTier_total: "\<exists>v. empfehlungenTier response = Inr v"
proof (cases "jsMatch empfehlungenRe response")
  case None
  then show ?thesis by (simp add: empfehlungenTier_def)
next
  case (Some m)
  have "definesGroup empfehlungenRe 1" by (simp add: empfehlungenRe_def)
  from jsMatch_defines [OF Some this] obtain g where "groupStr response m 1 = Inr g" ..
  with Some show ?thesis by (simp add: empfehlungenTier_def bindE_def)
qed

lemma recommendationsTier_total: "\<exists>v. recommendationsTier response = Inr v"
proof (cases "jsMatch recommendationsRe response")
  case None
  then show ?thesis by (simp add: recommendationsTier_def bindE_def)
next
  case (Some m)
  have "definesGroup recommendationsRe 1" by (simp add: recommendationsRe_def)
  from jsMatch_defines [OF Some this] obtain g where "groupStr response m 1 = Inr g" ..
  with Some show ?thesis by (simp add: recommendationsTier_def bindE_def)
qed

lemma extractRecommendations_total: "\<exists>v. extractRecommendations response mo = Inr v"
proof -
  obtain t1 where "empfehlungenTier response = Inr t1" using empfehlungenTier_total by blast
  moreover obtain t3 where "recommendationsTier response = Inr t3"
    using recommendationsTier_total by blast
  ultimately show ?thesis
    by (simp add: extractRecommendations_def bindE_def Let_def split: option.splits)
qed

lemma execLoop_total: "consumes r \<Longrightarrow> \<exists>l. execLoop r pos prev rest = Some l"
proof (induction r pos prev rest rule: execLoop.induct)
  case (1 r pos prev)
  have "matchAt r pos prev [] = None"
  proof (cases "matchAt r pos prev []")
    case (Some st)
    obtain pos' prev' rest' c' where "st = (pos', prev', rest', c')" by (cases st) auto
    with Some matchAt_SomeD [of r pos prev "[]" pos' prev' rest' c'] 1 show ?thesis
      by (auto simp: post_def ext_def)
  qed simp
  then show ?case by simp
next
  case (2 r pos prev x xs)
  show ?case
  proof (cases "matchAt r pos prev (x # xs)")
    case None
    with 2 show ?thesis by simp
  next
    case (Some st)
    obtain pos' prev' rest' c' where st: "st = (pos', prev', rest', c')" by (cases st) auto
    with Some matchAt_SomeD [of r pos prev "x # xs" pos' prev' rest' c'] "2.prems"
    have "length rest' < length (x # xs)"
      by (auto simp: post_def ext_def)
    moreover from this have "\<exists>l. execLoop r pos' prev' rest' = Some l"
      using "2.IH"(2) [OF Some [unfolded st] refl refl refl _ "2.prems"] by simp
    ultimately show ?thesis using Some st by auto
  qed
qed

lemma execLoop_matches:
  "execLoop r pos prev rest = Some l \<Longrightarrow> m \<in> set l \<Longrightarrow>
     \<exists>n prev0 prev' rest'. n \<le> length rest \<and> mstart m = pos + n \<and>
       matchAt r (pos + n) prev0 (drop n rest) = Some (mend m, prev', rest', mcaps m)"
proof (induction r pos prev rest arbitrary: l rule: execLoop.induct)
  case (1 r pos prev)
  then show ?case by (auto split: option.splits)
next
  case (2 r pos prev x xs)
  show ?case
  proof (cases "matchAt r pos prev (x # xs)")
    case None
    with "2.prems" have "execLoop r (Suc pos) (Some x) xs = Some l" by simp
    from "2.IH"(1) [OF None this "2.prems"(2)] obtain n prev0 prev' rest' where
      "n \<le> length xs" "mstart m = Suc pos + n"
      "matchAt r (Suc pos + n) prev0 (drop n xs) = Some (mend m, prev', rest', mcaps m)"
      by blast
    then show ?thesis
      by (intro exI [of _ "Suc n"] exI [of _ prev0] exI [of _ prev'] exI [of _ rest']) simp
  next
    case (Some st)
    obtain pos' prev' rest' c' where st: "st = (pos', prev', rest', c')" by (cases st) auto
    with Some "2.prems"(1) obtain l' where lt: "length rest' < length (x # xs)"
      and l': "execLoop r pos' prev' rest' = Some l'"
      and l: "l = \<lparr>mstart = pos, mend = pos', mcaps = c'\<rparr> # l'"
      by (auto split: if_splits)
    from Some st matchAt_SomeD [of r pos prev "x # xs" pos' prev' rest' c']
    have e: "pos \<le> pos'" "pos' - pos \<le> length (x # xs)" "rest' = drop (pos' - pos) (x # xs)"
      by (auto simp: post_def ext_def)
    show ?thesis
    proof (cases "m \<in> set l'")
      case True
      from "2.IH"(2) [OF Some [unfolded st] refl refl refl lt l' True]
      obtain n prev0 prev'' rest'' where
        n: "n \<le> length rest'" "mstart m = pos' + n"
        "matchAt r (pos' + n) prev0 (drop n rest') = Some (mend m, prev'', rest'', mcaps m)"
        by blast
      have "pos' + n = pos + (pos' - pos + n)" using e(1) by simp
      moreover have "drop n rest' = drop (pos' - pos + n) (x # xs)"
        using e(3) by (simp add: add.commute)
      moreover have "pos' - pos + n \<le> length (x # xs)" using n(1) e by auto
      ultimately show ?thesis using n
        by (intro exI [of _ "pos' - pos + n"] exI [of _ prev0] exI [of _ prev''] exI [of _ rest''])
          simp
    next
      case False
      with l "2.prems"(2) have "m = \<lparr>mstart = pos, mend = pos', mcaps = c'\<rparr>" by simp
      with Some st show ?thesis
        by (intro exI [of _ 0] exI [of _ prev] exI [of _ prev'] exI [of _ rest']) simp
    qed
  qed
qed

lemma mapE_total: "(\<And>x. x \<in> set xs \<Longrightarrow> \<exists>y. f x = Inr y) \<Longrightarrow> \<exists>ys. mapE f xs = Inr ys"
proof (induction xs)
  case Nil
  then show ?case by simp
next
  case (Cons x xs)
  then obtain y ys where "f x = Inr y" "mapE f xs = Inr ys" by (meson list.set_intros)
  then show ?case by (simp add: bindE_def)
qed

lemma citationRe_consumes: "consumes (citationRe abbr name)"
  by (simp add: citationRe_def asc_def)

lemma citationRe_defines: "definesGroup (citationRe abbr name) 3"
  by (simp add: citationRe_def)

lemma scanPattern_total:
  assumes "consumes r" and "definesGroup r 3"
  shows "\<exists>refs. scanPattern s r = Inr refs"
proof -
  from execLoop_total [OF assms(1)] obtain l where l: "execLoop r 0 None s = Some l" by blast
  have "\<exists>y. toReference s m = Inr y" if "m \<in> set l" for m
  proof -
    from execLoop_matches [OF l that] obtain n prev0 prev' rest' where
      "matchAt r (0 + n) prev0 (drop n s) = Some (mend m, prev', rest', mcaps m)" by blast
    from matchAt_SomeD [OF this] assms(2) have "mcaps m 3 \<noteq> None" by (auto simp: post_def)
    then show ?thesis
      by (auto simp: toReference_def groupStr_def group_def bindE_def Let_def split: option.splits)
  qed
  then obtain ys where "mapE (toReference s) l = Inr ys" using mapE_total by blast
  with l show ?thesis by (simp add: scanPattern_def bindE_def)
qed

lemma collectReferences_total: "\<exists>refs. collectReferences s = Inr refs"
proof -
  have "\<exists>y. scanPattern s r = Inr y" if "r \<in> set patterns" for r
    using that scanPattern_total citationRe_consumes citationRe_defines
    by (auto simp: patterns_def)
  then obtain ys where "mapE (scanPattern s) patterns = Inr ys" using mapE_total by blast
  then show ?thesis by (simp add: collectReferences_def bindE_def)
qed

lemma extractLegalReferences_total: "\<exists>refs. extractLegalReferences s = Inr refs"
  using collectReferences_total [of s] by (auto simp: extractLegalReferences_def bindE_def)

lemma sectionRes:
  "\<exists>v. extractSection descriptionRe response = Inr v"
  "\<exists>v. extractSection bruttorisikenRe response = Inr v"
  "\<exists>v. extractSection massnahmenRe response = Inr v"
  "\<exists>v. extractSection nettorisikenRe response = Inr v"
  "\<exists>v. extractSection ergebnisRe response = Inr v"
  unfolding descriptionRe_def bruttorisikenRe_def massnahmenRe_def nettorisikenRe_def
    ergebnisRe_def by (rule extractSection_total)+

text \<open>The value of parseResponse in terms of its parts.\<close>

lemma parseResponse_parts:
  "\<exists>s d b mo n e r recs refs.
     extractSummary response = Inr s \<and>
     extractSection massnahmenRe response = Inr mo \<and>
     extractRiskLevel response = Inr r \<and>
     extractRecommendations response mo = Inr recs \<and>
     extractLegalReferences response = Inr refs \<and>
     parseResponse response =
       Inr \<lparr>summary = s, riskLevel = r, analysis = response,
            recommendations = (if 0 < length recs then recs else [asc ''Keine Empfehlungen vorhanden.'']),
            legalReferences = refs, description = d, bruttorisiken = b, massnahmen = mo,
            nettorisiken = n, ergebnis = e\<rparr>"
proof -
  obtain s where s: "extractSummary response = Inr s" using extractSummary_total by blast
  obtain d where d: "extractSection descriptionRe response = Inr d" using sectionRes(1) by blast
  obtain b where b: "extractSection bruttorisikenRe response = Inr b" using sectionRes(2) by blast
  obtain mo where mo: "extractSection massnahmenRe response = Inr mo" using sectionRes(3) by blast
  obtain n where n: "extractSection nettorisikenRe response = Inr n" using sectionRes(4) by blast
  obtain e where e: "extractSection ergebnisRe response = Inr e" using sectionRes(5) by blast
  obtain r where r: "extractRiskLevel response = Inr r" using extractRiskLevel_total by blast
  obtain recs where recs: "extractRecommendations response mo = Inr recs"
    using extractRecommendations_total by blast
  obtain refs where refs: "extractLegalReferences response = Inr refs"
    using extractLegalReferences_total by blast
  have "parseResponse response =
       Inr \<lparr>summary = s, riskLevel = r, analysis = response,
            recommendations = (if 0 < length recs then recs else [asc ''Keine Empfehlungen vorhanden.'']),
            legalReferences = refs, description = d, bruttorisiken = b, massnahmen = mo,
            nettorisiken = n, ergebnis = e\<rparr>"
    by (simp add: parseResponse_def bindE_def s d b mo n e r recs refs)
  with s mo r recs refs show ?thesis by blast
qed

lemma litI_capture:
  assumes "matchLit True w p pr r = Some (p', pr', r')" and "r = drop p s"
  shows "toUpperCase (substring s p p') = map canon w"
proof -
  from matchLit_SomeD [OF assms(1)] have "p' = p + length w"
    "map canon (take (length w) r) = map canon w" by auto
  with assms(2) show ?thesis by (simp add: toUpperCase_def substring_def)
qed

lemma riskRe_capture:
  assumes "matchAt riskRe n prev0 (drop n s) = Some (e, prev', rest', c')"
  shows "\<exists>i j. c' 1 = Some (i, j) \<and>
     toUpperCase (substring s i j) \<in> {asc ''LOW'', asc ''MEDIUM'', asc ''HIGH''}"
proof -
  from assms obtain p1 pr1 r1 where
    lit: "matchLit True (asc ''RISK_LEVEL:'') n prev0 (drop n s) = Some (p1, pr1, r1)"
    and rp: "rep isSpace 0 None True p1 pr1 r1
      (\<lambda>p2 pr2 r2. ms (Group 1 (alts [LitI (asc ''LOW''), LitI (asc ''MEDIUM''), LitI (asc ''HIGH'')]))
         p2 pr2 r2 noCaptures accept) = Some (e, prev', rest', c')"
    by (auto simp: matchAt_def riskRe_def split: option.splits)
  from matchLit_SomeD [OF lit] have r1: "r1 = drop p1 s" "p1 = n + length (asc ''RISK_LEVEL:'')"
    by (auto simp: add.commute)
  from rep_SomeD [OF rp] obtain k pr2 where
    g: "ms (Group 1 (alts [LitI (asc ''LOW''), LitI (asc ''MEDIUM''), LitI (asc ''HIGH'')]))
         (p1 + k) pr2 (drop k r1) noCaptures accept = Some (e, prev', rest', c')"
    by blast
  have r2: "drop k r1 = drop (p1 + k) s" using r1(1) by (simp add: add.commute)
  from g have "\<exists>w \<in> {asc ''LOW'', asc ''MEDIUM'', asc ''HIGH''}. \<exists>p3 pr3 r3.
      matchLit True w (p1 + k) pr2 (drop k r1) = Some (p3, pr3, r3) \<and> c' 1 = Some (p1 + k, p3)"
    by (simp add: accept_def split: option.splits) fastforce+
  then obtain w p3 pr3 r3 where
    w: "w \<in> {asc ''LOW'', asc ''MEDIUM'', asc ''HIGH''}"
    and m: "matchLit True w (p1 + k) pr2 (drop k r1) = Some (p3, pr3, r3)"
    and c: "c' 1 = Some (p1 + k, p3)"
    by blast
  from litI_capture [OF m r2] have "toUpperCase (substring s (p1 + k) p3) = map canon w" .
  moreover from w have "map canon w = w"
    by (auto simp: asc_def canon_def isLower_def)
  ultimately show ?thesis using c w by auto
qed

lemma extractRiskLevel_cases:
  "(jsMatch riskRe response = None \<and> extractRiskLevel response = Inr (asc ''UNKNOWN'')) \<or>
   (jsMatch riskRe response \<noteq> None \<and>
    (\<exists>v \<in> {asc ''LOW'', asc ''MEDIUM'', asc ''HIGH''}. extractRiskLevel response = Inr v))"
proof (cases "jsMatch riskRe response")
  case None
  then show ?thesis by (simp add: extractRiskLevel_def)
next
  case (Some m)
  then obtain n prev0 prev' rest' where
    "matchAt riskRe (0 + n) prev0 (drop n response) = Some (mend m, prev', rest', mcaps m)"
    unfolding jsMatch_def by (blast dest: search_SomeD)
  then have "matchAt riskRe n prev0 (drop n response) = Some (mend m, prev', rest', mcaps m)"
    by simp
  from riskRe_capture [OF this] obtain i j where "mcaps m 1 = Some (i, j)"
    "toUpperCase (substring response i j) \<in> {asc ''LOW'', asc ''MEDIUM'', asc ''HIGH''}"
    by blast
  with Some show ?thesis
    by (simp add: extractRiskLevel_def groupStr_def group_def bindE_def)
qed

section \<open>The risk level\<close>

lemma replyUnknownRisk_no_match: "jsMatch riskRe replyUnknownRisk = None"
  by (simp add: replyUnknownRisk_def cls_defs re_defs run_defs)

text \<open>
  Claim C7. For every reply, \<open>parseResponse\<close> returns an assessment (it raises no error)
  whose \<open>riskLevel\<close> is one of \<^verbatim>\<open>LOW\<close>, \<^verbatim>\<open>MEDIUM\<close>, \<^verbatim>\<open>HIGH\<close>, \<^verbatim>\<open>UNKNOWN\<close>; when the pattern
  \<^verbatim>\<open>/RISK_LEVEL:\s*(LOW|MEDIUM|HIGH)/i\<close> matches nowhere in the reply (the label is missing
  or its value is not recognised), the risk level is \<^verbatim>\<open>UNKNOWN\<close>.
\<close>

theorem riskLevel_closed_vocabulary:
  "\<exists>a. parseResponse response = Inr a \<and>
       riskLevel a \<in> {asc ''LOW'', asc ''MEDIUM'', asc ''HIGH'', asc ''UNKNOWN''} \<and>
       (jsMatch riskRe response = None \<longrightarrow> riskLevel a = asc ''UNKNOWN'')"
proof -
  from parseResponse_parts [of response] obtain a r where
    "parseResponse response = Inr a" "extractRiskLevel response = Inr r" "riskLevel a = r"
    by force
  with extractRiskLevel_cases [of response] show ?thesis by auto
qed

theorem riskLevel_closed_vocabulary_witness:
  "jsMatch riskRe replyUnknownRisk = None \<and>
   (\<exists>a. parseResponse replyUnknownRisk = Inr a \<and> riskLevel a = asc ''UNKNOWN'')"
  using riskLevel_closed_vocabulary [of replyUnknownRisk] replyUnknownRisk_no_match by blast

section \<open>The recommendations are never empty\<close>

lemma replyNothing_tiers: "tiersResult replyNothing = Inr []"
  by (simp add: tiersResult_def extractSection_def extractRecommendations_def
      empfehlungenTier_def recommendationsTier_def replyNothing_def cls_defs re_defs run_defs)

text \<open>
  Claim C8. For every reply, \<open>parseResponse\<close> returns an assessment whose list of
  recommendations is not empty; when the three tiers of extraction yield nothing, the
  list is the single placeholder \<^verbatim>\<open>Keine Empfehlungen vorhanden.\<close>
\<close>

theorem recommendations_never_empty:
  "\<exists>a. parseResponse response = Inr a \<and> recommendations a \<noteq> [] \<and>
       (tiersResult response = Inr [] \<longrightarrow>
          recommendations a = [asc ''Keine Empfehlungen vorhanden.''])"
proof -
  from parseResponse_parts [of response] obtain a mo recs where
    "parseResponse response = Inr a" "extractSection massnahmenRe response = Inr mo"
    "extractRecommendations response mo = Inr recs"
    "recommendations a = (if 0 < length recs then recs else [asc ''Keine Empfehlungen vorhanden.''])"
    by force
  then show ?thesis by (auto simp: tiersResult_def bindE_def)
qed

theorem recommendations_never_empty_witness:
  "tiersResult replyNothing = Inr [] \<and>
   (\<exists>a. parseResponse replyNothing = Inr a \<and>
        recommendations a = [asc ''Keine Empfehlungen vorhanden.''])"
  using recommendations_never_empty [of replyNothing] replyNothing_tiers by blast

section \<open>Evaluating the parser on replies\<close>

lemma parseResponse_recommendations:
  assumes "extractSection massnahmenRe response = Inr mo"
    and "extractRecommendations response mo = Inr recs"
  shows "map_sum id recommendations (parseResponse response) =
     Inr (if 0 < length recs then recs else [asc ''Keine Empfehlungen vorhanden.''])"
  using parseResponse_parts [of response] assms by force

lemma massnahmenTier_entries: "massnahmenTier m = take 10 (massnahmenEntries m)"
  by (simp add: massnahmenTier_def massnahmenEntries_def)

lemma set_somes: "x \<in> set (somes xs) \<longleftrightarrow> Some x \<in> set xs"
  by (induction xs rule: somes.induct) auto

lemma massnahmenEntries_iff:
  "e \<in> set (massnahmenEntries m) \<longleftrightarrow>
     10 < length e \<and> (\<exists>l \<in> set (split 10 m). measureLine l = Some e)"
  by (auto simp: massnahmenEntries_def set_somes intro: rev_image_eqI)

lemma reply3_summary: "extractSummary reply3 = Inr (asc ''Hello.'')"
  by (simp add: extractSummary_def reply3_def cls_defs re_defs run_defs)

lemma reply3_riskLevel: "extractRiskLevel reply3 = Inr (asc ''HIGH'')"
  by (simp add: extractRiskLevel_def reply3_def cls_defs re_defs run_defs)

lemma reply3_massnahmen: "extractSection massnahmenRe reply3 = Inr None"
  by (simp add: extractSection_def reply3_def cls_defs re_defs run_defs)

lemma reply3_tier1: "empfehlungenTier reply3 = Inr []"
  by (simp add: empfehlungenTier_def reply3_def cls_defs re_defs run_defs)

lemma reply3_tier3: "recommendationsTier reply3 = Inr [asc ''Do X (Art. 5 DSG)'', asc ''Do Y'']"
  by (simp add: recommendationsTier_def reply3_def cls_defs re_defs run_defs)

lemma reply3_recommendations:
  "extractRecommendations reply3 None = Inr [asc ''Do X (Art. 5 DSG)'', asc ''Do Y'']"
  by (simp add: extractRecommendations_def reply3_tier1 reply3_tier3 bindE_def)

text \<open>
  Claim C3. For the reply \<^verbatim>\<open>SUMMARY: Hello. RISK_LEVEL: HIGH RECOMMENDATIONS:\<close> followed by
  the lines \<^verbatim>\<open>- Do X (Art. 5 DSG)\<close> and \<^verbatim>\<open>- Do Y\<close>, \<open>parseResponse\<close> returns the summary
  \<^verbatim>\<open>Hello.\<close>, the risk level \<^verbatim>\<open>HIGH\<close> and the two recommendations \<^verbatim>\<open>Do X (Art. 5 DSG)\<close>
  and \<^verbatim>\<open>Do Y\<close>.
\<close>

theorem parse_legacy_example:
  "\<exists>a. parseResponse reply3 = Inr a \<and> summary a = asc ''Hello.'' \<and>
       riskLevel a = asc ''HIGH'' \<and>
       recommendations a = [asc ''Do X (Art. 5 DSG)'', asc ''Do Y'']"
  using parseResponse_parts [of reply3]
  by (auto simp: reply3_summary reply3_riskLevel reply3_massnahmen reply3_recommendations)

section \<open>Which lines the tiers discard\<close>

text \<open>Each tier in terms of its candidates.\<close>

lemma sectionGroup_cases:
  assumes "definesGroup r 1"
  shows "(jsMatch r response = None \<and> sectionGroup r response = None) \<or>
     (\<exists>m g. jsMatch r response = Some m \<and> groupStr response m 1 = Inr g \<and>
        sectionGroup r response = Some g)"
proof (cases "jsMatch r response")
  case None
  then show ?thesis by (simp add: sectionGroup_def)
next
  case (Some m)
  from jsMatch_defines [OF Some assms] obtain g where "groupStr response m 1 = Inr g" ..
  with Some show ?thesis
    by (auto simp: sectionGroup_def groupStr_def split: option.splits)
qed

lemma empfehlungenTier_lines:
  "empfehlungenTier response =
     Inr (take 10 (filter (\<lambda>e. 10 < length e \<and> \<not> test bareNumberRe e) (empfehlungenLines response)))"
proof -
  have "definesGroup empfehlungenRe 1" by (simp add: empfehlungenRe_def)
  from sectionGroup_cases [OF this, of response] show ?thesis
    by (auto simp: empfehlungenTier_def empfehlungenLines_def strippedLines_def bindE_def)
qed

lemma recommendationsTier_lines:
  "recommendationsTier response = Inr (filter (\<lambda>e. e \<noteq> []) (recommendationsLines response))"
proof -
  have "definesGroup recommendationsRe 1" by (simp add: recommendationsRe_def)
  from sectionGroup_cases [OF this, of response] show ?thesis
    by (auto simp: recommendationsTier_def recommendationsLines_def strippedLines_def bindE_def)
qed

lemma somes_filter:
  "somes (filter (\<lambda>line. case line of None \<Rightarrow> False | Some l \<Rightarrow> P l) xs) = filter P (somes xs)"
  by (induction xs rule: somes.induct) auto

lemma massnahmen_lines:
  "\<exists>mo. extractSection massnahmenRe response = Inr mo \<and>
     take 10 (filter (\<lambda>e. 10 < length e) (massnahmenLines response)) =
       (case mo of None \<Rightarrow> [] | Some m \<Rightarrow> massnahmenTier m)"
proof -
  have "definesGroup massnahmenRe 1" unfolding massnahmenRe_def by (rule sectionRe_defines)
  from sectionGroup_cases [OF this, of response] show ?thesis
    by (auto simp: extractSection_def massnahmenLines_def massnahmenTier_def somes_filter bindE_def)
qed

lemma massnahmenTier_empty: "massnahmenTier [] = []"
  by (simp add: massnahmenTier_def measureLine_def cls_defs re_defs run_defs)

lemma take_filter_empty: "take 10 xs = [] \<longleftrightarrow> xs = []"
  by (cases xs) auto

lemma noise1_lines:
  "empfehlungenLines replyNoise1 =
     [asc ''Daten verschluesseln (Art. 8 DSG)'', asc ''kurz'', asc ''(12345678901)'']"
  by (simp add: empfehlungenLines_def sectionGroup_def strippedLines_def replyNoise1_def
      cls_defs re_defs run_defs)

lemma noise2_lines1: "empfehlungenLines replyNoise2 = []"
  by (simp add: empfehlungenLines_def sectionGroup_def strippedLines_def replyNoise2_def measuresNoise_def
      cls_defs re_defs run_defs)

lemma noise2_lines: "massnahmenLines replyNoise2 = [asc ''(12345678901)'', asc ''kurz'']"
  by (simp add: massnahmenLines_def sectionGroup_def measureLine_def replyNoise2_def measuresNoise_def
      cls_defs re_defs run_defs)

lemma noise3_lines1: "empfehlungenLines replyNoise3 = []"
  by (simp add: empfehlungenLines_def sectionGroup_def strippedLines_def replyNoise3_def
      cls_defs re_defs run_defs)

lemma noise3_lines2: "massnahmenLines replyNoise3 = []"
  by (simp add: massnahmenLines_def sectionGroup_def measureLine_def replyNoise3_def
      cls_defs re_defs run_defs)

lemma noise3_lines: "recommendationsLines replyNoise3 = [asc ''(1)'', asc ''Do Y'', []]"
  by (simp add: recommendationsLines_def sectionGroup_def strippedLines_def replyNoise3_def
      cls_defs re_defs run_defs)

lemma bare_numbers:
  "test bareNumberRe (asc ''(1)'')" "test bareNumberRe (asc ''(12345678901)'')"
  "\<not> test bareNumberRe (asc ''Daten verschluesseln (Art. 8 DSG)'')"
  by (simp_all add: cls_defs re_defs run_defs)

lemma noise3_section: "extractSection massnahmenRe replyNoise3 = Inr None"
  by (simp add: extractSection_def replyNoise3_def cls_defs re_defs run_defs)

lemma noise2_section: "extractSection massnahmenRe replyNoise2 = Inr (Some measuresNoise)"
  by (simp add: extractSection_def replyNoise2_def measuresNoise_def cls_defs re_defs run_defs)

lemma noise2_tier2: "massnahmenTier measuresNoise = [asc ''(12345678901)'']"
  by (simp add: massnahmenTier_def measureLine_def measuresNoise_def cls_defs re_defs run_defs)

text \<open>
  Claim C2, as stated, fails in the second and the third tier. The legacy tier keeps the
  entry \<^verbatim>\<open>Do Y\<close> of four code units (in the reply of the specification's own example and
  in another one) and the bare parenthesised number \<^verbatim>\<open>(1)\<close>; the tier of the measures
  keeps the bare parenthesised number \<^verbatim>\<open>(12345678901)\<close>.
\<close>

theorem noise_entries_kept_counterexample:
  "map_sum id recommendations (parseResponse reply3) =
     Inr [asc ''Do X (Art. 5 DSG)'', asc ''Do Y''] \<and> length (asc ''Do Y'') \<le> 10 \<and>
   map_sum id recommendations (parseResponse replyNoise3) = Inr [asc ''(1)'', asc ''Do Y''] \<and>
   test bareNumberRe (asc ''(1)'') \<and>
   map_sum id recommendations (parseResponse replyNoise2) = Inr [asc ''(12345678901)''] \<and>
   test bareNumberRe (asc ''(12345678901)'')"
proof -
  have 3: "extractRecommendations replyNoise3 None = Inr [asc ''(1)'', asc ''Do Y'']"
    by (simp add: extractRecommendations_def empfehlungenTier_lines recommendationsTier_lines
        noise3_lines1 noise3_lines bindE_def) (simp add: asc_def)
  have "measuresNoise \<noteq> []" by (simp add: measuresNoise_def asc_def)
  then have 2: "extractRecommendations replyNoise2 (Some measuresNoise) = Inr [asc ''(12345678901)'']"
    by (simp add: extractRecommendations_def empfehlungenTier_lines noise2_lines1 noise2_tier2
        bindE_def)
  from parseResponse_recommendations [OF reply3_massnahmen reply3_recommendations]
    parseResponse_recommendations [OF noise3_section 3]
    parseResponse_recommendations [OF noise2_section 2] bare_numbers(1,2)
  show ?thesis by (simp add: asc_def)
qed

text \<open>
  Claim C2, amended. For every reply, \<open>parseResponse\<close> returns the entries of the first
  tier that keeps any, and each tier keeps exactly these of its candidates: the tier
  \<^verbatim>\<open>EMPFEHLUNGEN\<close> the stripped lines that are longer than 10 code units and are not a bare
  parenthesised number; the tier \<^verbatim>\<open>MASSNAHMEN\<close> the entries of marked lines that are longer
  than 10 code units; the legacy tier \<^verbatim>\<open>RECOMMENDATIONS\<close> the stripped lines that are not
  empty. The first two tiers return the first ten entries they keep, the legacy tier all
  of them, and when no tier keeps an entry the result is the placeholder.
\<close>

theorem discarded_lines_by_tier:
  "\<exists>a. parseResponse response = Inr a \<and>
     recommendations a =
       (let kept1 = filter (\<lambda>e. 10 < length e \<and> \<not> test bareNumberRe e) (empfehlungenLines response);
            kept2 = filter (\<lambda>e. 10 < length e) (massnahmenLines response);
            kept3 = filter (\<lambda>e. e \<noteq> []) (recommendationsLines response)
        in if kept1 \<noteq> [] then take 10 kept1
           else if kept2 \<noteq> [] then take 10 kept2
           else if kept3 \<noteq> [] then kept3
           else [asc ''Keine Empfehlungen vorhanden.''])"
proof -
  define kept1 where "kept1 = filter (\<lambda>e. 10 < length e \<and> \<not> test bareNumberRe e) (empfehlungenLines response)"
  define kept2 where "kept2 = filter (\<lambda>e. 10 < length e) (massnahmenLines response)"
  define kept3 where "kept3 = filter (\<lambda>e. e \<noteq> []) (recommendationsLines response)"
  from parseResponse_parts [of response] obtain a mo recs where a:
    "parseResponse response = Inr a" "extractSection massnahmenRe response = Inr mo"
    "extractRecommendations response mo = Inr recs"
    "recommendations a = (if 0 < length recs then recs else [asc ''Keine Empfehlungen vorhanden.''])"
    by force
  have t1: "empfehlungenTier response = Inr (take 10 kept1)"
    unfolding kept1_def by (rule empfehlungenTier_lines)
  have t3: "recommendationsTier response = Inr kept3"
    unfolding kept3_def by (rule recommendationsTier_lines)
  from massnahmen_lines [of response] a(2)
  have t2: "take 10 kept2 = (case mo of None \<Rightarrow> [] | Some m \<Rightarrow> massnahmenTier m)"
    by (simp add: kept2_def)
  have "recs = (if kept1 \<noteq> [] then take 10 kept1
           else if kept2 \<noteq> [] then take 10 kept2 else kept3)"
  proof (cases mo)
    case None
    with t2 have "kept2 = []" by (simp add: take_filter_empty)
    with a(3) None t1 t3 show ?thesis
      by (auto simp: extractRecommendations_def bindE_def take_filter_empty split: if_splits)
  next
    case (Some m)
    with t2 have m: "massnahmenTier m = take 10 kept2" by simp
    show ?thesis
    proof (cases "m = []")
      case True
      with m massnahmenTier_empty have "kept2 = []" by (simp add: take_filter_empty)
      with a(3) Some True t1 t3 show ?thesis
        by (auto simp: extractRecommendations_def bindE_def take_filter_empty split: if_splits)
    next
      case False
      with a(3) Some t1 t3 m show ?thesis
        by (auto simp: extractRecommendations_def bindE_def take_filter_empty split: if_splits)
    qed
  qed
  with a(1,4) show ?thesis
    by (auto simp: Let_def kept1_def kept2_def kept3_def take_filter_empty)
qed

theorem discarded_lines_by_tier_witness:
  "(\<exists>a. parseResponse replyNoise1 = Inr a \<and>
      recommendations a = [asc ''Daten verschluesseln (Art. 8 DSG)'']) \<and>
   (\<exists>a. parseResponse replyNoise2 = Inr a \<and> recommendations a = [asc ''(12345678901)'']) \<and>
   (\<exists>a. parseResponse replyNoise3 = Inr a \<and> recommendations a = [asc ''(1)'', asc ''Do Y''])"
  using discarded_lines_by_tier [of replyNoise1] discarded_lines_by_tier [of replyNoise2]
    discarded_lines_by_tier [of replyNoise3]
  by (simp add: noise1_lines noise2_lines1 noise2_lines noise3_lines1 noise3_lines2 noise3_lines)
    (simp add: cls_defs re_defs run_defs)


section \<open>The cap of ten recommendations\<close>

lemma tier1_eval: "empfehlungenTier replyTier1 = Inr [asc ''Daten verschluesseln (Art. 8 DSG)'']"
  by (simp add: empfehlungenTier_def replyTier1_def cls_defs re_defs run_defs)

lemma tier2_eval: "massnahmenTier lineDash = [asc ''Rollen definieren (Art. 8 DSG)'']"
  by (simp add: massnahmenTier_def measureLine_def lineDash_def cls_defs re_defs run_defs)

lemma tier2_section: "extractSection massnahmenRe replyTier2 = Inr (Some lineDash)"
  by (simp add: extractSection_def replyTier2_def lineDash_def cls_defs re_defs run_defs)

lemma tier2_tier1: "empfehlungenTier replyTier2 = Inr []"
  by (simp add: empfehlungenTier_def replyTier2_def lineDash_def cls_defs re_defs run_defs)

lemma legacy11_section: "extractSection massnahmenRe replyLegacy11 = Inr None"
  by (simp add: extractSection_def replyLegacy11_def cls_defs re_defs run_defs)

lemma legacy11_tier1: "empfehlungenTier replyLegacy11 = Inr []"
  by (simp add: empfehlungenTier_def replyLegacy11_def cls_defs re_defs run_defs)

lemma legacy11_tier3: "recommendationsTier replyLegacy11 = Inr (map (\<lambda>c. [c]) (asc ''abcdefghijk''))"
  by (simp add: recommendationsTier_def replyLegacy11_def cls_defs re_defs run_defs)

text \<open>
  Claim C10. When the recommendations come from the section \<^verbatim>\<open>EMPFEHLUNGEN\<close> or from the
  fallback on the section \<^verbatim>\<open>MASSNAHMEN\<close>, \<open>parseResponse\<close> returns at most 10 of them;
  the legacy tier has no such cap: a reply with eleven legacy lines yields eleven
  recommendations.
\<close>

theorem recommendations_cap:
  "(\<exists>a. parseResponse response = Inr a \<and>
      (\<forall>t1. empfehlungenTier response = Inr t1 \<and> t1 \<noteq> [] \<longrightarrow>
         recommendations a = t1 \<and> length (recommendations a) \<le> 10) \<and>
      (\<forall>m. empfehlungenTier response = Inr [] \<and>
           extractSection massnahmenRe response = Inr (Some m) \<and> m \<noteq> [] \<and>
           massnahmenTier m \<noteq> [] \<longrightarrow>
         recommendations a = massnahmenTier m \<and> length (recommendations a) \<le> 10)) \<and>
   (\<exists>a. parseResponse replyLegacy11 = Inr a \<and> length (recommendations a) = 11)"
proof
  from parseResponse_parts [of response] obtain a mo recs where a:
    "parseResponse response = Inr a" "extractSection massnahmenRe response = Inr mo"
    "extractRecommendations response mo = Inr recs"
    "recommendations a = (if 0 < length recs then recs else [asc ''Keine Empfehlungen vorhanden.''])"
    by force
  have 1: "recommendations a = t1 \<and> length (recommendations a) \<le> 10"
    if "empfehlungenTier response = Inr t1" "t1 \<noteq> []" for t1
  proof -
    from that a(3) have "recs = t1"
      by (auto simp: extractRecommendations_def bindE_def split: option.splits if_splits)
    moreover have "length t1 \<le> 10"
      using that(1)
      by (auto simp: empfehlungenTier_def bindE_def split: option.splits sum.splits)
    ultimately show ?thesis using a(4) that(2) by simp
  qed
  have 2: "recommendations a = massnahmenTier m \<and> length (recommendations a) \<le> 10"
    if "empfehlungenTier response = Inr []" "extractSection massnahmenRe response = Inr (Some m)"
      "m \<noteq> []" "massnahmenTier m \<noteq> []" for m
  proof -
    from that a(2) have "mo = Some m" by simp
    with that a(3) have "recs = massnahmenTier m"
      by (auto simp: extractRecommendations_def bindE_def)
    moreover have "length (massnahmenTier m) \<le> 10" by (simp add: massnahmenTier_def)
    ultimately show ?thesis using a(4) that(4) by simp
  qed
  from a(1) 1 2 show "\<exists>a. parseResponse response = Inr a \<and>
      (\<forall>t1. empfehlungenTier response = Inr t1 \<and> t1 \<noteq> [] \<longrightarrow>
         recommendations a = t1 \<and> length (recommendations a) \<le> 10) \<and>
      (\<forall>m. empfehlungenTier response = Inr [] \<and>
           extractSection massnahmenRe response = Inr (Some m) \<and> m \<noteq> [] \<and>
           massnahmenTier m \<noteq> [] \<longrightarrow>
         recommendations a = massnahmenTier m \<and> length (recommendations a) \<le> 10)"
    by blast
next
  have "extractRecommendations replyLegacy11 None = Inr (map (\<lambda>c. [c]) (asc ''abcdefghijk''))"
    by (simp add: extractRecommendations_def legacy11_tier1 legacy11_tier3 bindE_def asc_def)
  from parseResponse_recommendations [OF legacy11_section this]
  show "\<exists>a. parseResponse replyLegacy11 = Inr a \<and> length (recommendations a) = 11"
    by (cases "parseResponse replyLegacy11") (auto simp: asc_def)
qed

theorem recommendations_cap_witness:
  "(empfehlungenTier replyTier1 = Inr [asc ''Daten verschluesseln (Art. 8 DSG)''] \<and>
    (\<exists>a. parseResponse replyTier1 = Inr a \<and>
         recommendations a = [asc ''Daten verschluesseln (Art. 8 DSG)''] \<and>
         length (recommendations a) \<le> 10)) \<and>
   (empfehlungenTier replyTier2 = Inr [] \<and>
    extractSection massnahmenRe replyTier2 = Inr (Some lineDash) \<and> lineDash \<noteq> [] \<and>
    massnahmenTier lineDash \<noteq> [] \<and>
    (\<exists>a. parseResponse replyTier2 = Inr a \<and> recommendations a = massnahmenTier lineDash \<and>
         length (recommendations a) \<le> 10))"
proof
  show "empfehlungenTier replyTier1 = Inr [asc ''Daten verschluesseln (Art. 8 DSG)''] \<and>
    (\<exists>a. parseResponse replyTier1 = Inr a \<and>
         recommendations a = [asc ''Daten verschluesseln (Art. 8 DSG)''] \<and>
         length (recommendations a) \<le> 10)"
    using recommendations_cap [of replyTier1] tier1_eval by auto
next
  have "lineDash \<noteq> []" by (simp add: lineDash_def asc_def)
  then show "empfehlungenTier replyTier2 = Inr [] \<and>
    extractSection massnahmenRe replyTier2 = Inr (Some lineDash) \<and> lineDash \<noteq> [] \<and>
    massnahmenTier lineDash \<noteq> [] \<and>
    (\<exists>a. parseResponse replyTier2 = Inr a \<and> recommendations a = massnahmenTier lineDash \<and>
         length (recommendations a) \<le> 10)"
    using recommendations_cap [of replyTier2] tier2_tier1 tier2_section tier2_eval by auto
qed

section \<open>The fallback on the measures\<close>

lemma paren1_tier1: "empfehlungenTier replyParen1 = Inr []"
  by (simp add: empfehlungenTier_def replyParen1_def lineParen1_def measureText_def cls_defs re_defs run_defs)

lemma paren1_section: "extractSection massnahmenRe replyParen1 = Inr (Some lineParen1)"
  by (simp add: extractSection_def replyParen1_def lineParen1_def measureText_def cls_defs re_defs run_defs)

lemma paren1_split: "split 10 lineParen1 = [lineParen1]"
  by (simp add: lineParen1_def measureText_def asc_def)

lemma paren1_measureLine: "measureLine lineParen1 = None"
  by (simp add: measureLine_def lineParen1_def measureText_def cls_defs re_defs run_defs)

lemma paren1_tier3: "recommendationsTier replyParen1 = Inr []"
  by (simp add: recommendationsTier_def replyParen1_def lineParen1_def measureText_def cls_defs re_defs run_defs)

lemma paren1_tier2: "massnahmenTier lineParen1 = []"
  by (simp add: massnahmenTier_def paren1_split paren1_measureLine)

text \<open>
  Claim C1, as stated, fails: a line that starts with \<^verbatim>\<open>(1)\<close> matches none of the three
  markers of the second tier, so the reply whose measures are that line gets the
  placeholder.
\<close>

theorem paren_number_line_counterexample:
  "empfehlungenTier replyParen1 = Inr [] \<and>
   extractSection massnahmenRe replyParen1 = Inr (Some lineParen1) \<and>
   lineParen1 \<in> set (split 10 lineParen1) \<and>
   massnahmenTier lineParen1 = [] \<and>
   map_sum id recommendations (parseResponse replyParen1) =
     Inr [asc ''Keine Empfehlungen vorhanden.'']"
proof -
  have "extractRecommendations replyParen1 (Some lineParen1) = Inr []"
    by (simp add: extractRecommendations_def paren1_tier1 paren1_tier2 paren1_tier3 bindE_def)
  from parseResponse_recommendations [OF paren1_section this]
  show ?thesis by (simp add: paren1_tier1 paren1_section paren1_split paren1_tier2)
qed

lemma marked_number_dot:
  "measureLine (asc ''1. '' @ measureText) = Some (asc ''weil sensibel (Art. 8 DSG)'')"
  by (simp add: measureLine_def measureText_def cls_defs re_defs run_defs)

lemma marked_number_paren:
  "measureLine (asc ''1) '' @ measureText) = Some (asc ''weil sensibel (Art. 8 DSG)'')"
  by (simp add: measureLine_def measureText_def cls_defs re_defs run_defs)

lemma marked_letter: "measureLine lineParenA = Some (asc ''weil sensibel (Art. 8 DSG)'')"
  by (simp add: measureLine_def lineParenA_def measureText_def cls_defs re_defs run_defs)

lemma marked_dash:
  "measureLine (asc ''- '' @ measureText) = Some (asc ''weil sensibel (Art. 8 DSG)'')"
  by (simp add: measureLine_def measureText_def cls_defs re_defs run_defs)

lemma marked_measureLine:
  "L \<in> set markedLines \<Longrightarrow> measureLine L = Some (asc ''weil sensibel (Art. 8 DSG)'')"
  using marked_number_dot marked_number_paren marked_letter marked_dash
  by (auto simp: markedLines_def)

lemma parenA_tier1: "empfehlungenTier replyParenA = Inr []"
  by (simp add: empfehlungenTier_def replyParenA_def lineParenA_def measureText_def cls_defs re_defs run_defs)

lemma parenA_section: "extractSection massnahmenRe replyParenA = Inr (Some lineParenA)"
  by (simp add: extractSection_def replyParenA_def lineParenA_def measureText_def cls_defs re_defs run_defs)

lemma parenA_split: "split 10 lineParenA = [lineParenA]"
  by (simp add: lineParenA_def measureText_def asc_def)

text \<open>
  Claim C1, amended. The line starting with \<^verbatim>\<open>(1)\<close> is skipped by the second tier. For
  every reply in which the first tier yields nothing and whose measures contain the same
  text behind a marker that the code recognises (\<^verbatim>\<open>1.\<close>, \<^verbatim>\<open>1)\<close>, \<^verbatim>\<open>(a)\<close> or a dash),
  with at most 10 entries in the measures, \<open>parseResponse\<close> returns the entries of the
  second tier, and \<^verbatim>\<open>weil sensibel (Art. 8 DSG)\<close>, the text after the first colon, is
  one of them.
\<close>

theorem measures_fallback_marked_line:
  assumes "empfehlungenTier response = Inr []"
    and "extractSection massnahmenRe response = Inr (Some m)"
    and "L \<in> set markedLines" and "L \<in> set (split 10 m)"
    and "length (massnahmenEntries m) \<le> 10"
  shows "measureLine lineParen1 = None \<and>
    measureLine L = Some (asc ''weil sensibel (Art. 8 DSG)'') \<and>
    asc ''weil sensibel (Art. 8 DSG)'' \<in> set (massnahmenTier m) \<and>
    map_sum id recommendations (parseResponse response) = Inr (massnahmenTier m)"
proof -
  have L: "measureLine L = Some (asc ''weil sensibel (Art. 8 DSG)'')"
    using assms(3) by (rule marked_measureLine)
  have "10 < length (asc ''weil sensibel (Art. 8 DSG)'')" by (simp add: asc_def)
  with L assms(4) have "asc ''weil sensibel (Art. 8 DSG)'' \<in> set (massnahmenEntries m)"
    by (auto simp: massnahmenEntries_iff)
  with assms(5) have mem: "asc ''weil sensibel (Art. 8 DSG)'' \<in> set (massnahmenTier m)"
    by (simp add: massnahmenTier_entries)
  have "L \<noteq> []" using assms(3) by (auto simp: markedLines_def lineParenA_def asc_def)
  with assms(4) have "m \<noteq> []" by auto
  with mem assms(1) have "extractRecommendations response (Some m) = Inr (massnahmenTier m)"
    by (auto simp: extractRecommendations_def bindE_def Let_def)
  from parseResponse_recommendations [OF assms(2) this] mem
  have "map_sum id recommendations (parseResponse response) = Inr (massnahmenTier m)"
    by auto
  with L mem paren1_measureLine show ?thesis by simp
qed

theorem measures_fallback_marked_line_witness:
  "empfehlungenTier replyParenA = Inr [] \<and>
   extractSection massnahmenRe replyParenA = Inr (Some lineParenA) \<and>
   lineParenA \<in> set markedLines \<and> lineParenA \<in> set (split 10 lineParenA) \<and>
   length (massnahmenEntries lineParenA) \<le> 10 \<and>
   asc ''weil sensibel (Art. 8 DSG)'' \<in> set (massnahmenTier lineParenA) \<and>
   map_sum id recommendations (parseResponse replyParenA) = Inr (massnahmenTier lineParenA)"
proof -
  have 3: "lineParenA \<in> set markedLines" by (simp add: markedLines_def)
  have 4: "lineParenA \<in> set (split 10 lineParenA)" by (simp add: parenA_split)
  have 5: "length (massnahmenEntries lineParenA) \<le> 10"
    by (simp add: massnahmenEntries_def parenA_split marked_measureLine [OF 3])
  from measures_fallback_marked_line [OF parenA_tier1 parenA_section 3 4 5] parenA_tier1 parenA_section 3 4 5
  show ?thesis by simp
qed

section \<open>Legal references\<close>

lemma findIndexFrom_cases:
  "findIndexFrom i p xs = -1 \<or>
   (\<exists>j<length xs. findIndexFrom i p xs = i + int j \<and> p (xs ! j) \<and> (\<forall>k<j. \<not> p (xs ! k)))"
proof (induction xs arbitrary: i)
  case Nil
  then show ?case by simp
next
  case (Cons x xs)
  show ?case
  proof (cases "p x")
    case True
    then have "findIndexFrom i p (x # xs) = i + int 0 \<and> p ((x # xs) ! 0) \<and>
      (\<forall>k<0. \<not> p ((x # xs) ! k))" by simp
    then show ?thesis by blast
  next
    case False
    from Cons.IH [of "i + 1"] show ?thesis
    proof
      assume "findIndexFrom (i + 1) p xs = -1"
      with False show ?thesis by simp
    next
      assume "\<exists>j<length xs. findIndexFrom (i + 1) p xs = i + 1 + int j \<and> p (xs ! j) \<and>
        (\<forall>k<j. \<not> p (xs ! k))"
      then obtain j where j: "j < length xs" "findIndexFrom (i + 1) p xs = i + 1 + int j"
        "p (xs ! j)" "\<forall>k<j. \<not> p (xs ! k)" by blast
      have "\<forall>k<Suc j. \<not> p ((x # xs) ! k)"
      proof (intro allI impI)
        fix k assume "k < Suc j"
        then show "\<not> p ((x # xs) ! k)" using False j(4) by (cases k) auto
      qed
      with j False have "Suc j < length (x # xs) \<and>
        findIndexFrom i p (x # xs) = i + int (Suc j) \<and> p ((x # xs) ! Suc j) \<and>
        (\<forall>k<Suc j. \<not> p ((x # xs) ! k))" by simp
      then show ?thesis by blast
    qed
  qed
qed

lemma findIndexFrom_none:
  "0 \<le> i \<Longrightarrow> findIndexFrom i p xs = -1 \<Longrightarrow> x \<in> set xs \<Longrightarrow> \<not> p x"
proof (induction xs arbitrary: i)
  case Nil
  then show ?case by simp
next
  case (Cons y ys)
  from Cons.prems(1,2) have y: "\<not> p y" by (auto split: if_splits)
  with Cons.prems(2) have "findIndexFrom (i + 1) p ys = -1" by simp
  with Cons.IH [of "i + 1"] Cons.prems(1) have "x \<in> set ys \<Longrightarrow> \<not> p x" by simp
  with y Cons.prems(3) show ?case by auto
qed

lemma findIndexFrom_iff:
  assumes "j < length xs" and "0 \<le> i"
  shows "findIndexFrom i p xs = i + int j \<longleftrightarrow> p (xs ! j) \<and> (\<forall>k<j. \<not> p (xs ! k))"
proof
  assume eq: "findIndexFrom i p xs = i + int j"
  with assms(2) have "findIndexFrom i p xs \<noteq> -1" by simp
  with findIndexFrom_cases [of i p xs] obtain j' where
    "findIndexFrom i p xs = i + int j'" "p (xs ! j')" "\<forall>k<j'. \<not> p (xs ! k)" by blast
  with eq show "p (xs ! j) \<and> (\<forall>k<j. \<not> p (xs ! k))" by simp
next
  assume r: "p (xs ! j) \<and> (\<forall>k<j. \<not> p (xs ! k))"
  from findIndexFrom_cases [of i p xs] show "findIndexFrom i p xs = i + int j"
  proof
    assume "findIndexFrom i p xs = -1"
    from findIndexFrom_none [OF assms(2) this, of "xs ! j"] assms(1) r
    show ?thesis by simp
  next
    assume "\<exists>j<length xs. findIndexFrom i p xs = i + int j \<and> p (xs ! j) \<and> (\<forall>k<j. \<not> p (xs ! k))"
    then obtain j' where j': "findIndexFrom i p xs = i + int j'" "p (xs ! j')"
      "\<forall>k<j'. \<not> p (xs ! k)" by blast
    with r have "j' = j" by (meson linorder_neqE_nat)
    with j' show ?thesis by simp
  qed
qed

lemma findIndex_iff:
  "j < length xs \<Longrightarrow> findIndex p xs = int j \<longleftrightarrow> p (xs ! j) \<and> (\<forall>k<j. \<not> p (xs ! k))"
  using findIndexFrom_iff [of j xs 0 p] by (simp add: findIndex_def)

lemma uniqueRefs_nth:
  "uniqueRefs xs = map (nth xs) (filter (firstAt xs) [0..<length xs])"
proof -
  have "enumerate 0 xs = map (\<lambda>j. (j, xs ! j)) [0..<length xs]"
    by (rule nth_equalityI) (simp_all add: nth_enumerate_eq)
  then have "uniqueRefs xs = map (nth xs)
      (filter (\<lambda>j. int j = findIndex (\<lambda>r. rtext r = rtext (xs ! j)) xs) [0..<length xs])"
    by (simp add: uniqueRefs_def filter_map comp_def)
  also have "filter (\<lambda>j. int j = findIndex (\<lambda>r. rtext r = rtext (xs ! j)) xs) [0..<length xs]
      = filter (firstAt xs) [0..<length xs]"
    by (rule filter_cong) (auto simp: firstAt_def findIndex_iff eq_commute [of "int _"])
  finally show ?thesis .
qed









lemma art5_dsg:
  "(case matchAt (citationRe ''DSG'' ''Datenschutzgesetz'') n prev0 (asc ''Art. 5 DSG'' @ suf) of
      None \<Rightarrow> False
    | Some (e, pr, r, c) \<Rightarrow> e = n + 10 \<and> r = suf \<and>
        c 1 = Some (n + 5, n + 6) \<and> c 2 = None \<and> c 3 = Some (n + 7, n + 10))"
  by (simp add: cls_defs re_defs run_defs)

lemma art5_others:
  "matchAt (citationRe ''ZGB'' ''Zivilgesetzbuch'') n prev0 (asc ''Art. 5 DSG'' @ suf) = None"
  "matchAt (citationRe ''OR'' ''Obligationenrecht'') n prev0 (asc ''Art. 5 DSG'' @ suf) = None"
  "matchAt (citationRe ''BV'' ''Bundesverfassung'') n prev0 (asc ''Art. 5 DSG'' @ suf) = None"
  "matchAt (citationRe ''StGB'' ''Strafgesetzbuch'') n prev0 (asc ''Art. 5 DSG'' @ suf) = None"
  by (simp_all add: cls_defs re_defs run_defs)

lemma take_eq_append: "take k ys = x \<Longrightarrow> ys = x @ drop (length x) ys"
proof -
  assume a: "take k ys = x"
  have "take (length x) ys = x"
  proof (cases "k \<le> length ys")
    case True
    with a show ?thesis by auto
  next
    case False
    with a show ?thesis by auto
  qed
  then show ?thesis by (metis append_take_drop_id)
qed

lemma substring_shift: "substring s (n + i) (n + j) = substring (drop n s) i j"
  by (simp add: substring_def add.commute)

text \<open>A match reported by the loop, with its text: the input at its start.\<close>

lemma execLoop_whole:
  assumes "execLoop p 0 None s = Some l" and "m \<in> set l" and "whole s m = x"
  shows "\<exists>prev0 prev' rest'. drop (mstart m) s = x @ drop (length x) (drop (mstart m) s) \<and>
     matchAt p (mstart m) prev0 (drop (mstart m) s) = Some (mend m, prev', rest', mcaps m)"
proof -
  from execLoop_matches [OF assms(1,2)] obtain n prev0 prev' rest' where
    n: "mstart m = n" "matchAt p (0 + n) prev0 (drop n s) = Some (mend m, prev', rest', mcaps m)"
    by auto
  from assms(3) have "take (mend m - mstart m) (drop (mstart m) s) = x"
    by (simp add: whole_def substring_def)
  from take_eq_append [OF this] n show ?thesis by auto
qed

lemma others_empty:
  assumes "execLoop p 0 None s = Some l"
    and "\<forall>m \<in> set l. whole s m = asc ''Art. 5 DSG''"
    and "\<And>n prev0 suf. matchAt p n prev0 (asc ''Art. 5 DSG'' @ suf) = None"
  shows "l = []"
proof (cases l)
  case (Cons m ms)
  with assms(2) have "whole s m = asc ''Art. 5 DSG''" by simp
  from execLoop_whole [OF assms(1) _ this] Cons obtain prev0 prev' rest' where
    "drop (mstart m) s = asc ''Art. 5 DSG'' @ drop (length (asc ''Art. 5 DSG'')) (drop (mstart m) s)"
    "matchAt p (mstart m) prev0 (drop (mstart m) s) = Some (mend m, prev', rest', mcaps m)"
    by auto
  with assms(3) show ?thesis by (metis option.distinct(1))
qed simp

lemma dsg_reference:
  assumes "execLoop (citationRe ''DSG'' ''Datenschutzgesetz'') 0 None s = Some l"
    and "m \<in> set l" and "whole s m = asc ''Art. 5 DSG''"
  shows "toReference s m = Inr (Some refArt5)"
proof -
  define n where "n = mstart m"
  define suf where "suf = drop (length (asc ''Art. 5 DSG'')) (drop n s)"
  from execLoop_whole [OF assms] obtain prev0 prev' rest' where
    d: "drop n s = asc ''Art. 5 DSG'' @ suf"
    and m: "matchAt (citationRe ''DSG'' ''Datenschutzgesetz'') n prev0 (drop n s) =
      Some (mend m, prev', rest', mcaps m)"
    unfolding n_def suf_def by auto
  from art5_dsg [where n = n and ?prev0.0 = prev0 and suf = suf] m d have c: "mend m = n + 10"
    "mcaps m 1 = Some (n + 5, n + 6)" "mcaps m 2 = None" "mcaps m 3 = Some (n + 7, n + 10)"
    by auto
  have g1: "group s m 1 = Some (asc ''5'')"
    using c(2) d by (simp add: group_def substring_shift) (simp add: substring_def asc_def)
  have g2: "group s m 2 = None" using c(3) by (simp add: group_def)
  have g3: "group s m 3 = Some (asc ''DSG'')"
    using c(4) d by (simp add: group_def substring_shift) (simp add: substring_def asc_def)
  have l: "lookupLaw (asc ''DSG'') =
      Some (asc ''https://www.fedlex.admin.ch/eli/cc/2022/491/de'')"
    by (simp add: lookupLaw_def SWISS_LAW_URLS_def asc_def)
  have "asc ''5'' \<noteq> []" by (simp add: asc_def)
  with g1 g2 g3 l assms(3) show ?thesis
    by (simp add: toReference_def groupStr_def bindE_def refArt5_def asc_def)
qed

lemma mapE_const:
  "(\<And>x. x \<in> set xs \<Longrightarrow> f x = Inr y) \<Longrightarrow> mapE f xs = Inr (replicate (length xs) y)"
  by (induction xs) (simp_all add: bindE_def)

lemma somes_replicate: "somes (replicate k (Some x)) = replicate k x"
  by (induction k) simp_all

lemma uniqueRefs_replicate: "0 < k \<Longrightarrow> uniqueRefs (replicate k r) = [r]"
proof -
  assume k: "0 < k"
  have "filter (firstAt (replicate k r)) [0..<k] = [0]"
  proof -
    have "[0..<k] = 0 # [1..<k]" using k by (simp add: upt_conv_Cons)
    moreover have "firstAt (replicate k r) 0" by (simp add: firstAt_def)
    moreover have "filter (firstAt (replicate k r)) [1..<k] = []"
      by (auto simp: filter_empty_conv firstAt_def intro!: exI [of _ 0])
    ultimately show ?thesis by simp
  qed
  with k show ?thesis by (simp add: uniqueRefs_nth)
qed

lemma patterns_total:
  "\<exists>l1 l2 l3 l4 l5.
     execLoop (citationRe ''DSG'' ''Datenschutzgesetz'') 0 None s = Some l1 \<and>
     execLoop (citationRe ''ZGB'' ''Zivilgesetzbuch'') 0 None s = Some l2 \<and>
     execLoop (citationRe ''OR'' ''Obligationenrecht'') 0 None s = Some l3 \<and>
     execLoop (citationRe ''BV'' ''Bundesverfassung'') 0 None s = Some l4 \<and>
     execLoop (citationRe ''StGB'' ''Strafgesetzbuch'') 0 None s = Some l5"
proof -
  have "\<exists>l. execLoop (citationRe abbr name) 0 None s = Some l" for abbr name
    by (rule execLoop_total [OF citationRe_consumes])
  then show ?thesis by meson
qed

text \<open>
  Claim C6. For every text in which the five loops find at least one match and every
  match is the substring \<^verbatim>\<open>Art. 5 DSG\<close>, \<open>extractLegalReferences\<close> returns exactly one
  reference, with the law \<^verbatim>\<open>DSG\<close>, the article \<^verbatim>\<open>5\<close> and a URL that ends in \<^verbatim>\<open>#art_5\<close>;
  for every text in which the loops find no match it returns the empty list.
\<close>

theorem single_citation_art5:
  "(citationMatches s \<noteq> [] \<and> (\<forall>m \<in> set (citationMatches s). whole s m = asc ''Art. 5 DSG'') \<longrightarrow>
      extractLegalReferences s = Inr [refArt5] \<and> law refArt5 = asc ''DSG'' \<and>
      article refArt5 = Some (asc ''5'') \<and>
      url refArt5 = asc ''https://www.fedlex.admin.ch/eli/cc/2022/491/de'' @ asc ''#art_5'') \<and>
   (citationMatches s = [] \<longrightarrow> extractLegalReferences s = Inr [])"
proof -
  from patterns_total [of s] obtain l1 l2 l3 l4 l5 where l:
     "execLoop (citationRe ''DSG'' ''Datenschutzgesetz'') 0 None s = Some l1"
     "execLoop (citationRe ''ZGB'' ''Zivilgesetzbuch'') 0 None s = Some l2"
     "execLoop (citationRe ''OR'' ''Obligationenrecht'') 0 None s = Some l3"
     "execLoop (citationRe ''BV'' ''Bundesverfassung'') 0 None s = Some l4"
     "execLoop (citationRe ''StGB'' ''Strafgesetzbuch'') 0 None s = Some l5"
    by blast
  then have cm: "citationMatches s = l1 @ l2 @ l3 @ l4 @ l5"
    by (simp add: citationMatches_def patterns_def)
  have empty: "scanPattern s p = Inr []" if "execLoop p 0 None s = Some []" for p
    using that by (simp add: scanPattern_def bindE_def)
  have collect: "collectReferences s =
      bindE (scanPattern s (citationRe ''DSG'' ''Datenschutzgesetz'')) (\<lambda>r1.
      bindE (scanPattern s (citationRe ''ZGB'' ''Zivilgesetzbuch'')) (\<lambda>r2.
      bindE (scanPattern s (citationRe ''OR'' ''Obligationenrecht'')) (\<lambda>r3.
      bindE (scanPattern s (citationRe ''BV'' ''Bundesverfassung'')) (\<lambda>r4.
      bindE (scanPattern s (citationRe ''StGB'' ''Strafgesetzbuch'')) (\<lambda>r5.
        Inr (r1 @ r2 @ r3 @ r4 @ r5))))))"
    by (simp add: collectReferences_def patterns_def bindE_def split: sum.splits)
  have one: "extractLegalReferences s = Inr [refArt5]"
    if ne: "citationMatches s \<noteq> []"
      and all: "\<forall>m \<in> set (citationMatches s). whole s m = asc ''Art. 5 DSG''"
  proof -
    from all cm have a: "\<forall>m \<in> set l1. whole s m = asc ''Art. 5 DSG''"
      "\<forall>m \<in> set l2. whole s m = asc ''Art. 5 DSG''"
      "\<forall>m \<in> set l3. whole s m = asc ''Art. 5 DSG''"
      "\<forall>m \<in> set l4. whole s m = asc ''Art. 5 DSG''"
      "\<forall>m \<in> set l5. whole s m = asc ''Art. 5 DSG''" by auto
    have e: "l2 = []" "l3 = []" "l4 = []" "l5 = []"
      using others_empty [OF l(2) a(2)] others_empty [OF l(3) a(3)]
        others_empty [OF l(4) a(4)] others_empty [OF l(5) a(5)] art5_others
      by blast+
    with ne cm have l1: "0 < length l1" by simp
    have "mapE (toReference s) l1 = Inr (replicate (length l1) (Some refArt5))"
      using dsg_reference [OF l(1)] a(1) by (intro mapE_const) simp
    then have "scanPattern s (citationRe ''DSG'' ''Datenschutzgesetz'') =
        Inr (replicate (length l1) refArt5)"
      using l(1) by (simp add: scanPattern_def bindE_def somes_replicate)
    with e l empty have "collectReferences s = Inr (replicate (length l1) refArt5)"
      by (simp add: collect bindE_def)
    with l1 show ?thesis
      by (simp add: extractLegalReferences_def bindE_def uniqueRefs_replicate)
  qed
  have none: "extractLegalReferences s = Inr []" if "citationMatches s = []"
  proof -
    from that cm have "l1 = []" "l2 = []" "l3 = []" "l4 = []" "l5 = []" by simp_all
    with l empty have "collectReferences s = Inr []" by (simp add: collect bindE_def)
    then show ?thesis by (simp add: extractLegalReferences_def bindE_def uniqueRefs_def)
  qed
  from one none show ?thesis by (simp add: refArt5_def asc_def)
qed

lemma textArt5_matches: "map (whole textArt5) (citationMatches textArt5) = [asc ''Art. 5 DSG'']"
  by (simp add: citationMatches_def textArt5_def cls_defs re_defs run_defs)

lemma replyNothing_matches: "citationMatches replyNothing = []"
  by (simp add: citationMatches_def replyNothing_def cls_defs re_defs run_defs)

theorem single_citation_art5_witness:
  "map (whole textArt5) (citationMatches textArt5) = [asc ''Art. 5 DSG''] \<and>
   extractLegalReferences textArt5 = Inr [refArt5] \<and>
   citationMatches replyNothing = [] \<and> extractLegalReferences replyNothing = Inr []"
proof -
  have "citationMatches textArt5 \<noteq> []" using textArt5_matches by auto
  moreover have "\<forall>m \<in> set (citationMatches textArt5). whole textArt5 m = asc ''Art. 5 DSG''"
  proof
    fix m assume "m \<in> set (citationMatches textArt5)"
    then have "whole textArt5 m \<in> set (map (whole textArt5) (citationMatches textArt5))"
      by simp
    then show "whole textArt5 m = asc ''Art. 5 DSG''" by (simp add: textArt5_matches)
  qed
  ultimately show ?thesis
    using single_citation_art5 [of textArt5] single_citation_art5 [of replyNothing] textArt5_matches replyNothing_matches
    by simp
qed

section \<open>Context retrieval: the ranking\<close>

lemma overlapScore_filter:
  "fold (\<lambda>token overlap. if token \<in> A then overlap + 1 else overlap) q k =
     k + length (filter (\<lambda>t. t \<in> A) q)"
  by (induction q arbitrary: k) simp_all

lemma overlapScore_occurrence:
  "overlapScore (tokenize lower query) (tokenize lower (body a)) = occurrenceScore lower query a"
  by (simp add: overlapScore_def occurrenceScore_def overlapScore_filter)

lemma insort_key_map:
  "insort_key h (p x) (map p ys) = map p (insort_key (\<lambda>y. h (p y)) x ys)"
  by (induction ys) simp_all

lemma sort_key_map: "sort_key h (map p xs) = map p (sort_key (\<lambda>y. h (p y)) xs)"
  by (induction xs) (simp_all add: insort_key_map)

lemma slice0_map: "map f (slice0 xs n) = slice0 (map f xs) n"
  by (simp add: slice0_def take_map)

lemma retrieve_ranking:
  "retrieveDsgContext lower arts query limit =
     slice0 (ranking lower arts query) (case limit of None \<Rightarrow> 5 | Some n \<Rightarrow> n)"
proof (cases "arts = [] \<or> tokenize lower query = []")
  case True
  then have "ranking lower arts query = []"
    by (auto simp: ranking_def occurrenceScore_def)
  with True show ?thesis by (auto simp: retrieveDsgContext_def slice0_def)
next
  case False
  have "map fst (sortByScore (filter (\<lambda>(article, score). 0 < score)
      (map (\<lambda>article. (article, overlapScore (tokenize lower query) (tokenize lower (body article)))) arts)))
    = ranking lower arts query"
    by (simp add: sortByScore_def ranking_def overlapScore_occurrence filter_map comp_def
        sort_key_map)
  with False show ?thesis
    by (simp add: retrieveDsgContext_def Let_def slice0_map)
qed

lemma ranking_sorted:
  "sorted_wrt (\<lambda>a b. occurrenceScore lower query b \<le> occurrenceScore lower query a)
     (ranking lower arts query)"
proof -
  have "sorted (map (\<lambda>a. - int (occurrenceScore lower query a)) (ranking lower arts query))"
    unfolding ranking_def by (rule sorted_sort_key)
  then show ?thesis by (simp add: sorted_map)
qed

lemma ranking_stable:
  "filter (\<lambda>a. occurrenceScore lower query a = k) (ranking lower arts query) =
     (if 0 < k then filter (\<lambda>a. occurrenceScore lower query a = k) arts else [])"
proof -
  have "filter (\<lambda>a. - int (occurrenceScore lower query a) = - int k) (ranking lower arts query)
    = filter (\<lambda>a. - int (occurrenceScore lower query a) = - int k)
        (filter (\<lambda>a. 0 < occurrenceScore lower query a) arts)"
    unfolding ranking_def by (rule sort_key_stable)
  then have "filter (\<lambda>a. occurrenceScore lower query a = k) (ranking lower arts query)
    = filter (\<lambda>a. 0 < occurrenceScore lower query a \<and> occurrenceScore lower query a = k) arts"
    by (simp add: conj_commute)
  also have "\<dots> = (if 0 < k then filter (\<lambda>a. occurrenceScore lower query a = k) arts else [])"
    by (auto intro: filter_cong simp: filter_empty_conv)
  finally show ?thesis .
qed

lemma ranking_two:
  assumes "tokenize lower query = [t1, t2]"
    and "arts = [A, B] \<or> arts = [B, A]"
    and "t1 \<in> set (tokenize lower (body A))" and "t2 \<in> set (tokenize lower (body A))"
    and "(t1 \<in> set (tokenize lower (body B))) \<noteq> (t2 \<in> set (tokenize lower (body B)))"
  shows "ranking lower arts query = [A, B]"
proof -
  have "occurrenceScore lower query A = 2" using assms(1,3,4) by (simp add: occurrenceScore_def)
  moreover have "occurrenceScore lower query B = 1"
    using assms(1,5) by (auto simp: occurrenceScore_def)
  ultimately show ?thesis using assms(2) by (auto simp: ranking_def)
qed

text \<open>
  Claim C4, amended. For every query, collection and limit, \<open>retrieveDsgContext\<close>
  scores an article by the number of query tokens, each occurrence counted, that are in
  the article's token set; its result is \<^verbatim>\<open>slice(0, limit)\<close> (the first \<open>limit\<close> entries
  when \<open>limit\<close> is not negative) of the ranking, which holds the articles of positive
  score, in descending order of score, the articles of equal score in the order of the
  collection. For a query of two tokens over a collection of two articles, where \<open>A\<close>
  has both tokens and \<open>B\<close> exactly one, and a limit of at least 2, the result is
  \<open>[A, B]\<close>.
\<close>

theorem retrieval_ranking:
  "retrieveDsgContext lower arts query limit =
     slice0 (ranking lower arts query) (case limit of None \<Rightarrow> 5 | Some n \<Rightarrow> n) \<and>
   sorted_wrt (\<lambda>a b. occurrenceScore lower query b \<le> occurrenceScore lower query a)
     (ranking lower arts query) \<and>
   (\<forall>k. filter (\<lambda>a. occurrenceScore lower query a = k) (ranking lower arts query) =
     (if 0 < k then filter (\<lambda>a. occurrenceScore lower query a = k) arts else [])) \<and>
   (\<forall>n. limit = Some n \<and> 0 \<le> n \<longrightarrow>
      retrieveDsgContext lower arts query limit = take (nat n) (ranking lower arts query)) \<and>
   (\<forall>A B t1 t2 n. tokenize lower query = [t1, t2] \<and> (arts = [A, B] \<or> arts = [B, A]) \<and>
      t1 \<in> set (tokenize lower (body A)) \<and> t2 \<in> set (tokenize lower (body A)) \<and>
      (t1 \<in> set (tokenize lower (body B))) \<noteq> (t2 \<in> set (tokenize lower (body B))) \<and>
      limit = Some n \<and> 2 \<le> n \<longrightarrow>
      retrieveDsgContext lower arts query limit = [A, B])"
proof (intro conjI allI impI)
  show "retrieveDsgContext lower arts query limit =
     slice0 (ranking lower arts query) (case limit of None \<Rightarrow> 5 | Some n \<Rightarrow> n)"
    by (rule retrieve_ranking)
  show "sorted_wrt (\<lambda>a b. occurrenceScore lower query b \<le> occurrenceScore lower query a)
     (ranking lower arts query)"
    by (rule ranking_sorted)
  show "filter (\<lambda>a. occurrenceScore lower query a = k) (ranking lower arts query) =
     (if 0 < k then filter (\<lambda>a. occurrenceScore lower query a = k) arts else [])" for k
    by (rule ranking_stable)
  show "retrieveDsgContext lower arts query limit = take (nat n) (ranking lower arts query)"
    if "limit = Some n \<and> 0 \<le> n" for n
    using that by (simp add: retrieve_ranking slice0_def)
  show "retrieveDsgContext lower arts query limit = [A, B]"
    if "tokenize lower query = [t1, t2] \<and> (arts = [A, B] \<or> arts = [B, A]) \<and>
      t1 \<in> set (tokenize lower (body A)) \<and> t2 \<in> set (tokenize lower (body A)) \<and>
      (t1 \<in> set (tokenize lower (body B))) \<noteq> (t2 \<in> set (tokenize lower (body B))) \<and>
      limit = Some n \<and> 2 \<le> n" for A B t1 t2 n
  proof -
    from that have "ranking lower arts query = [A, B]" by (intro ranking_two) auto
    moreover from that have "2 \<le> nat n" by linarith
    ultimately show ?thesis using that by (simp add: retrieve_ranking slice0_def)
  qed
qed

lemma body_simps:
  "body artDaten = asc ''daten''" "body artSchutz = asc ''schutz recht''"
  "body artA = asc ''Verschl'' @ [252] @ asc ''sselung der Personendaten''"
  "body artB = asc ''Bearbeitung der Personendaten''"
  by (simp_all add: artDaten_def artSchutz_def artA_def artB_def)

lemma tok_queryRepeat:
  "tokenize asciiLower queryRepeat =
     [asc ''daten'', asc ''daten'', asc ''daten'', asc ''schutz'', asc ''recht'']"
  by (simp add: queryRepeat_def tokenize_def asciiLower_def cls_defs re_defs run_defs)

lemma tok_daten: "tokenize asciiLower (asc ''daten'') = [asc ''daten'']"
  by (simp add: tokenize_def asciiLower_def cls_defs re_defs run_defs)

lemma tok_schutz: "tokenize asciiLower (asc ''schutz recht'') = [asc ''schutz'', asc ''recht'']"
  by (simp add: tokenize_def asciiLower_def cls_defs re_defs run_defs)

lemma tok_queryTwo:
  "tokenize asciiLower queryTwo =
     [asc ''verschl'' @ [252] @ asc ''sselung'', asc ''personendaten'']"
  by (simp add: queryTwo_def tokenize_def asciiLower_def cls_defs re_defs run_defs)

lemma tok_artA:
  "tokenize asciiLower (asc ''Verschl'' @ [252] @ asc ''sselung der Personendaten'') =
     [asc ''verschl'' @ [252] @ asc ''sselung'', asc ''der'', asc ''personendaten'']"
  by (simp add: tokenize_def asciiLower_def cls_defs re_defs run_defs)

lemma tok_artB:
  "tokenize asciiLower (asc ''Bearbeitung der Personendaten'') =
     [asc ''bearbeitung'', asc ''der'', asc ''personendaten'']"
  by (simp add: tokenize_def asciiLower_def cls_defs re_defs run_defs)

lemma art_distinct: "artSchutz \<noteq> artDaten"
  by (simp add: artDaten_def artSchutz_def asc_def)

text \<open>
  Claim C4, as stated, fails: the score counts a query token once for each of its
  occurrences in the query, not once per distinct token. With the query
  \<^verbatim>\<open>daten daten daten schutz recht\<close> the article \<^verbatim>\<open>daten\<close> scores 3 and the article
  \<^verbatim>\<open>schutz recht\<close> scores 2, so the code ranks them in the opposite order of the count of
  distinct tokens (1 and 2).
\<close>

theorem distinct_token_count_counterexample:
  "retrieveDsgContext asciiLower [artSchutz, artDaten] queryRepeat (Some 2) = [artDaten, artSchutz] \<and>
   specRetrieveContext asciiLower [artSchutz, artDaten] queryRepeat 2 = [artSchutz, artDaten] \<and>
   artSchutz \<noteq> artDaten"
proof -
  have o: "occurrenceScore asciiLower queryRepeat artDaten = 3"
    "occurrenceScore asciiLower queryRepeat artSchutz = 2"
    unfolding occurrenceScore_def body_simps tok_queryRepeat tok_daten tok_schutz
    by (simp_all add: asc_def)
  have d: "distinctScore asciiLower queryRepeat artDaten = 1"
    "distinctScore asciiLower queryRepeat artSchutz = 2"
    unfolding distinctScore_def body_simps tok_queryRepeat tok_daten tok_schutz
    by (simp_all add: asc_def)
  have "ranking asciiLower [artSchutz, artDaten] queryRepeat = [artDaten, artSchutz]"
    by (simp add: ranking_def o)
  then have "retrieveDsgContext asciiLower [artSchutz, artDaten] queryRepeat (Some 2) =
      [artDaten, artSchutz]"
    by (simp add: retrieve_ranking slice0_def)
  moreover have "specRetrieveContext asciiLower [artSchutz, artDaten] queryRepeat 2 =
      [artSchutz, artDaten]"
    by (simp add: specRetrieveContext_def d)
  ultimately show ?thesis using art_distinct by simp
qed

theorem retrieval_ranking_witness:
  "tokenize asciiLower queryTwo =
     [asc ''verschl'' @ [252] @ asc ''sselung'', asc ''personendaten''] \<and>
   asc ''verschl'' @ [252] @ asc ''sselung'' \<in> set (tokenize asciiLower (body artA)) \<and>
   asc ''personendaten'' \<in> set (tokenize asciiLower (body artA)) \<and>
   asc ''verschl'' @ [252] @ asc ''sselung'' \<notin> set (tokenize asciiLower (body artB)) \<and>
   asc ''personendaten'' \<in> set (tokenize asciiLower (body artB)) \<and>
   retrieveDsgContext asciiLower [artB, artA] queryTwo (Some 2) = [artA, artB] \<and>
   retrieveDsgContext asciiLower [artB, artA] queryTwo (Some 2) =
     take (nat 2) (ranking asciiLower [artB, artA] queryTwo)"
proof -
  have 1: "asc ''verschl'' @ [252] @ asc ''sselung'' \<in> set (tokenize asciiLower (body artA))"
    and 2: "asc ''personendaten'' \<in> set (tokenize asciiLower (body artA))"
    and 3: "asc ''verschl'' @ [252] @ asc ''sselung'' \<notin> set (tokenize asciiLower (body artB))"
    and 4: "asc ''personendaten'' \<in> set (tokenize asciiLower (body artB))"
    unfolding body_simps tok_artA tok_artB by (simp_all add: asc_def)
  note c = retrieval_ranking [of asciiLower "[artB, artA]" queryTwo "Some 2"]
  from c have t: "\<forall>n. Some (2::int) = Some n \<and> 0 \<le> n \<longrightarrow>
      retrieveDsgContext asciiLower [artB, artA] queryTwo (Some 2) =
        take (nat n) (ranking asciiLower [artB, artA] queryTwo)"
    by (elim conjE)
  from c have p: "\<forall>A B t1 t2 n. tokenize asciiLower queryTwo = [t1, t2] \<and>
      ([artB, artA] = [A, B] \<or> [artB, artA] = [B, A]) \<and>
      t1 \<in> set (tokenize asciiLower (body A)) \<and> t2 \<in> set (tokenize asciiLower (body A)) \<and>
      (t1 \<in> set (tokenize asciiLower (body B))) \<noteq> (t2 \<in> set (tokenize asciiLower (body B))) \<and>
      Some (2::int) = Some n \<and> 2 \<le> n \<longrightarrow>
      retrieveDsgContext asciiLower [artB, artA] queryTwo (Some 2) = [A, B]"
    by (elim conjE)
  have "retrieveDsgContext asciiLower [artB, artA] queryTwo (Some 2) = [artA, artB]"
    by (rule p [rule_format, of "asc ''verschl'' @ [252] @ asc ''sselung''"
          "asc ''personendaten''" artA artB 2])
      (use tok_queryTwo 1 2 3 4 in simp)
  moreover have "retrieveDsgContext asciiLower [artB, artA] queryTwo (Some 2) =
     take (nat 2) (ranking asciiLower [artB, artA] queryTwo)"
    by (rule t [rule_format]) simp
  ultimately show ?thesis using tok_queryTwo 1 2 3 4 by blast
qed

section \<open>Cleaning and the references\<close>













subsection \<open>A run of a matcher moved to the right\<close>







subsection \<open>Citations behind a prefix without digits\<close>











subsection \<open>Cleaning in front of a separator\<close>























end
